(* ===== verification/Prelude.thy ===== *)
theory Prelude
  imports Main "HOL-Library.Word"
begin

text \<open>
  Shared ground of the development.

  \<^item> C++ strings and byte buffers are HOL strings (lists of the 256 characters), so a NUL, a
    carriage return or a byte above 127 is an ordinary element.
  \<^item> Everything a C++ function can do instead of returning is a \<open>fault\<close>: throwing an
    exception, leaving the process with a status, running into undefined behaviour (an index
    out of range, a null pointer that is followed), or never coming back, \<open>Blocked\<close>. A fallible operation returns \<open>'a result\<close>,
    with \<open>Inl\<close> for the fault.
  \<^item> The parts of the C and C++ standard libraries that several components use: the character
    classes of the C locale, decimal printing (\<open>std::to_string\<close>, stream insertion) and
    \<open>std::stoi\<close>.
\<close>

named_theorems char_class_simps \<open>the character classes of the C locale, unfolded\<close>
named_theorems handler_defs \<open>definitions of the route handlers\<close>

subsection \<open>Faults and results\<close>

datatype exn = Runtime_Error string | Invalid_Argument | Out_Of_Range | System_Error

datatype fault = Raise exn | Exit int | Undefined | Blocked

type_synonym 'a result = "fault + 'a"

definition bind_res :: "'a result \<Rightarrow> ('a \<Rightarrow> 'b result) \<Rightarrow> 'b result" where
  "bind_res r f = (case r of Inl e \<Rightarrow> Inl e | Inr x \<Rightarrow> f x)"

lemma bind_res_simps [simp]:
  "bind_res (Inl e) f = Inl e"
  "bind_res (Inr x) f = f x"
  by (simp_all add: bind_res_def)

lemma bind_res_eq_Inr: "bind_res r f = Inr y \<longleftrightarrow> (\<exists>x. r = Inr x \<and> f x = Inr y)"
  by (cases r) auto

definition returns :: "'a result \<Rightarrow> bool" where
  "returns r \<longleftrightarrow> (case r of Inl _ \<Rightarrow> False | Inr _ \<Rightarrow> True)"

lemma returns_simps [simp]: "\<not> returns (Inl e)" "returns (Inr x)"
  by (simp_all add: returns_def)

lemma returns_iff: "returns r \<longleftrightarrow> (\<exists>x. r = Inr x)"
  by (cases r) auto

text \<open>Indexing a \<open>std::vector\<close>: out of range is undefined behaviour, not a value.\<close>

definition vec_at :: "'a list \<Rightarrow> nat \<Rightarrow> 'a result" where
  "vec_at xs i = (if i < length xs then Inr (xs ! i) else Inl Undefined)"

lemma vec_at_Cons [simp]: "vec_at (x # xs) 0 = Inr x" "vec_at (x # xs) (Suc i) = vec_at xs i"
  by (simp_all add: vec_at_def)

lemma vec_at_Nil [simp]: "vec_at [] i = Inl Undefined"
  by (simp add: vec_at_def)

lemma vec_at_1 [simp]: "vec_at (x # xs) 1 = vec_at xs 0"
  by (simp add: vec_at_def)

subsection \<open>Effects\<close>

text \<open>
  An operation on the outside world (a database, the network), or on any state that is passed: its
  result and the state afterwards. A fault keeps the state it left.
\<close>

type_synonym ('s, 'a) io = "'s \<Rightarrow> 'a result \<times> 's"

definition io_return :: "'a \<Rightarrow> ('s, 'a) io" where
  "io_return x = (\<lambda>s. (Inr x, s))"

definition io_lift :: "'a result \<Rightarrow> ('s, 'a) io" where
  "io_lift r = (\<lambda>s. (r, s))"

definition io_bind :: "('s, 'a) io \<Rightarrow> ('a \<Rightarrow> ('s, 'b) io) \<Rightarrow> ('s, 'b) io" where
  "io_bind m f = (\<lambda>s. case m s of (Inl e, s') \<Rightarrow> (Inl e, s') | (Inr x, s') \<Rightarrow> f x s')"

lemma io_simps [simp]:
  "io_return x s = (Inr x, s)"
  "io_lift r s = (r, s)"
  "m s = (Inr x, s') \<Longrightarrow> io_bind m f s = f x s'"
  "m s = (Inl e, s') \<Longrightarrow> io_bind m f s = (Inl e, s')"
  by (simp_all add: io_return_def io_lift_def io_bind_def)

lemma io_bind_return [simp]:
  "io_bind (io_return x) f = f x" "io_bind (io_lift (Inr x)) f = f x" "io_bind (io_lift (Inl e)) f = io_lift (Inl e)"
  by (auto simp: io_return_def io_lift_def io_bind_def)

text \<open>An operation on the second part of a state.\<close>

definition on_snd :: "('w, 'a) io \<Rightarrow> ('s \<times> 'w, 'a) io" where
  "on_snd m = (\<lambda>(s, w). case m w of (r, w') \<Rightarrow> (r, (s, w')))"

lemma on_snd_eq [simp]: "m w = (r, w') \<Longrightarrow> on_snd m (s, w) = (r, (s, w'))"
  by (simp add: on_snd_def)

lemma on_snd_eq_iff: "on_snd m (s, w) = (r, (s', w')) \<longleftrightarrow> m w = (r, w') \<and> s' = s"
  by (auto simp: on_snd_def split: prod.splits)

lemma io_bind_eq_Inr:
  "io_bind m f s = (Inr y, s'') \<longleftrightarrow> (\<exists>x s'. m s = (Inr x, s') \<and> f x s' = (Inr y, s''))"
  by (auto simp: io_bind_def split: prod.splits sum.splits)

text \<open>Operations that keep a predicate of their state, whether they return or not.\<close>

definition keeps :: "('s \<Rightarrow> bool) \<Rightarrow> ('s, 'a) io \<Rightarrow> bool" where
  "keeps P m \<longleftrightarrow> (\<forall>s. P s \<longrightarrow> P (snd (m s)))"

named_theorems keeps_intros

lemma keepsI: "(\<And>s. P s \<Longrightarrow> P (snd (m s))) \<Longrightarrow> keeps P m"
  by (simp add: keeps_def)

lemma keepsD: "keeps P m \<Longrightarrow> P s \<Longrightarrow> m s = (r, s') \<Longrightarrow> P s'"
  unfolding keeps_def by (metis snd_conv)

lemma keeps_io_return [keeps_intros]: "keeps P (io_return x)"
  by (simp add: keeps_def)

lemma keeps_io_lift [keeps_intros]: "keeps P (io_lift r)"
  by (simp add: keeps_def)

lemma keeps_io_bind [keeps_intros]: "keeps P m \<Longrightarrow> (\<And>x. keeps P (f x)) \<Longrightarrow> keeps P (io_bind m f)"
  unfolding keeps_def io_bind_def by (auto split: prod.split sum.split)

lemma keeps_on_snd [keeps_intros]: "keeps P m \<Longrightarrow> keeps (\<lambda>(s, w). P w) (on_snd m)"
  unfolding keeps_def on_snd_def by (auto split: prod.split)

text \<open>A sum over a list of which one element is replaced.\<close>

lemma sum_map_update:
  fixes f :: "'a \<Rightarrow> 'b::comm_monoid_add"
  shows "i < length xs \<Longrightarrow> sum_list (map f (xs[i := x])) + f (xs ! i) = sum_list (map f xs) + f x"
proof (induction xs arbitrary: i)
  case (Cons y xs)
  then show ?case by (cases i) (auto simp: ac_simps)
qed simp

subsection \<open>Characters of the C locale\<close>

abbreviation ccode :: "char \<Rightarrow> nat" where
  "ccode c \<equiv> of_char c"

lemma ccode_less: "ccode c < 256"
  by (cases c) (simp add: of_char_def horner_sum_simps split: bool.split)

abbreviation CR :: char where "CR \<equiv> CHR 0x0D"
abbreviation LF :: char where "LF \<equiv> CHR 0x0A"
abbreviation TAB :: char where "TAB \<equiv> CHR 0x09"
abbreviation DQUOTE :: char where "DQUOTE \<equiv> CHR 0x22"
abbreviation SQUOTE :: char where "SQUOTE \<equiv> CHR 0x27"
abbreviation NUL :: char where "NUL \<equiv> CHR 0x00"
abbreviation CRLF :: string where "CRLF \<equiv> [CR, LF]"

text \<open>What a C string at the start of a piece of memory holds.\<close>

definition c_string :: "string \<Rightarrow> string" where
  "c_string mem = takeWhile (\<lambda>c. c \<noteq> NUL) mem"

definition is_digit :: "char \<Rightarrow> bool" where
  [char_class_simps]: "is_digit c \<longleftrightarrow> 48 \<le> ccode c \<and> ccode c \<le> 57"

definition is_upper :: "char \<Rightarrow> bool" where
  [char_class_simps]: "is_upper c \<longleftrightarrow> 65 \<le> ccode c \<and> ccode c \<le> 90"

definition is_lower :: "char \<Rightarrow> bool" where
  [char_class_simps]: "is_lower c \<longleftrightarrow> 97 \<le> ccode c \<and> ccode c \<le> 122"

definition is_xdigit :: "char \<Rightarrow> bool" where
  [char_class_simps]: "is_xdigit c \<longleftrightarrow>
     is_digit c \<or> (65 \<le> ccode c \<and> ccode c \<le> 70) \<or> (97 \<le> ccode c \<and> ccode c \<le> 102)"

definition is_word :: "char \<Rightarrow> bool" where
  [char_class_simps]: "is_word c \<longleftrightarrow> is_digit c \<or> is_upper c \<or> is_lower c \<or> c = CHR ''_''"

definition is_space :: "char \<Rightarrow> bool" where
  [char_class_simps]: "is_space c \<longleftrightarrow> ccode c = 32 \<or> (9 \<le> ccode c \<and> ccode c \<le> 13)"

text \<open>The dot of an ECMAScript expression: anything but a line terminator.\<close>

definition not_newline :: "char \<Rightarrow> bool" where
  [char_class_simps]: "not_newline c \<longleftrightarrow> c \<noteq> LF \<and> c \<noteq> CR"

lemma word_not_newline: "is_word c \<Longrightarrow> not_newline c"
  by (auto simp: char_class_simps)

lemma word_not_slash: "is_word c \<Longrightarrow> c \<noteq> CHR ''/''"
  by (auto simp: char_class_simps)

lemma word_not_dot: "is_word c \<Longrightarrow> c \<noteq> CHR ''.''"
  by (auto simp: char_class_simps)

lemma digit_not_newline: "is_digit c \<Longrightarrow> not_newline c"
  by (auto simp: char_class_simps)

subsection \<open>Generic list lemmas\<close>

lemma takeWhile_append_stop: "\<forall>x\<in>set xs. P x \<Longrightarrow> \<not> P y \<Longrightarrow> takeWhile P (xs @ y # ys) = xs"
  by (induction xs) auto

lemma dropWhile_append_stop: "\<forall>x\<in>set xs. P x \<Longrightarrow> \<not> P y \<Longrightarrow> dropWhile P (xs @ y # ys) = y # ys"
  by (induction xs) auto

lemma takeWhile_all: "\<forall>x\<in>set xs. P x \<Longrightarrow> takeWhile P xs = xs"
  by (simp add: takeWhile_eq_all_conv)

lemma split_unique:
  assumes "xs @ x # r = ys @ y # r'" "\<forall>z\<in>set xs. P z" "\<forall>z\<in>set ys. P z" "\<not> P x" "\<not> P y"
  shows "xs = ys \<and> x = y \<and> r = r'"
proof -
  have "takeWhile P (xs @ x # r) = xs" "takeWhile P (ys @ y # r') = ys"
    using assms(2-5) by (simp_all add: takeWhile_append_stop)
  with assms(1) have "xs = ys" by simp
  with assms(1) show ?thesis by simp
qed

subsection \<open>Decimal numbers\<close>

definition digit_char :: "nat \<Rightarrow> char" where
  "digit_char d = char_of (48 + d)"

definition digit_value :: "char \<Rightarrow> nat" where
  "digit_value c = ccode c - 48"

fun to_dec :: "nat \<Rightarrow> string" where
  "to_dec n = (if n < 10 then [digit_char n] else to_dec (n div 10) @ [digit_char (n mod 10)])"

declare to_dec.simps [simp del]

definition dec_value :: "string \<Rightarrow> nat" where
  "dec_value s = foldl (\<lambda>v c. 10 * v + digit_value c) 0 s"

lemma digit_char_digit [simp]: "d < 10 \<Longrightarrow> is_digit (digit_char d)"
  by (simp add: is_digit_def digit_char_def)

lemma digit_value_char [simp]: "d < 10 \<Longrightarrow> digit_value (digit_char d) = d"
  by (simp add: digit_value_def digit_char_def)

lemma to_dec_digits: "c \<in> set (to_dec n) \<Longrightarrow> is_digit c"
proof (induction n rule: to_dec.induct)
  case (1 n)
  then show ?case
    by (auto simp: to_dec.simps [of n] split: if_splits)
qed

lemma to_dec_nonempty [simp]: "to_dec n \<noteq> []"
  by (subst to_dec.simps) simp

lemma dec_value_snoc: "dec_value (s @ [c]) = 10 * dec_value s + digit_value c"
  by (simp add: dec_value_def)

lemma dec_value_to_dec [simp]: "dec_value (to_dec n) = n"
proof (induction n rule: to_dec.induct)
  case (1 n)
  show ?case
  proof (cases "n < 10")
    case True
    then show ?thesis by (subst to_dec.simps) (simp add: dec_value_def)
  next
    case False
    with 1 show ?thesis by (subst to_dec.simps) (simp add: dec_value_snoc)
  qed
qed

definition int_to_string :: "int \<Rightarrow> string" where
  "int_to_string v = (if v < 0 then CHR ''-'' # to_dec (nat (- v)) else to_dec (nat v))"

text \<open>
  \<open>std::stoi\<close> in base 10: leading white space, an optional sign, then at least one digit;
  what follows the digits is ignored. No digit is \<open>std::invalid_argument\<close>, a value outside
  \<open>int\<close> is \<open>std::out_of_range\<close>.
\<close>

definition int_min :: int where "int_min = - (2 ^ 31)"
definition int_max :: int where "int_max = 2 ^ 31 - 1"

definition split_sign :: "string \<Rightarrow> bool \<times> string" where
  "split_sign s = (case s of
       [] \<Rightarrow> (False, [])
     | c # t \<Rightarrow> if c = CHR ''-'' then (True, t) else if c = CHR ''+'' then (False, t) else (False, s))"

definition stoi :: "string \<Rightarrow> int result" where
  "stoi s =
     (let (neg, t) = split_sign (dropWhile is_space s);
          ds = takeWhile is_digit t;
          v = (if neg then - int (dec_value ds) else int (dec_value ds))
      in if ds = [] then Inl (Raise Invalid_Argument)
         else if v < int_min \<or> int_max < v then Inl (Raise Out_Of_Range)
         else Inr v)"

lemma digit_not_space: "is_digit c \<Longrightarrow> \<not> is_space c"
  by (auto simp: char_class_simps)

lemma digit_no_sign: "is_digit c \<Longrightarrow> c \<noteq> CHR ''-'' \<and> c \<noteq> CHR ''+''"
  by (auto simp: char_class_simps)

lemma stoi_digits:
  assumes "ds \<noteq> []" "\<forall>c\<in>set ds. is_digit c" "int (dec_value ds) \<le> int_max"
  shows "stoi ds = Inr (int (dec_value ds))"
proof -
  obtain c t where ct: "ds = c # t" using assms(1) by (cases ds) auto
  have c: "is_digit c" using assms(2) ct by simp
  have skip: "dropWhile is_space ds = ds"
    using digit_not_space [OF c] ct by simp
  have sign: "split_sign ds = (False, ds)"
    using digit_no_sign [OF c] ct by (simp add: split_sign_def)
  have all: "takeWhile is_digit ds = ds"
    using assms(2) by (rule takeWhile_all)
  show ?thesis
    using assms(1,3) by (simp add: stoi_def skip sign all int_min_def)
qed

lemma stoi_to_dec: "int n \<le> int_max \<Longrightarrow> stoi (to_dec n) = Inr (int n)"
  using stoi_digits [of "to_dec n"] by (simp add: to_dec_digits)

lemma stoi_minus:
  assumes "int n \<le> 2 ^ 31"
  shows "stoi (CHR ''-'' # to_dec n) = Inr (- int n)"
proof -
  have tw: "takeWhile is_digit (to_dec n) = to_dec n"
    by (rule takeWhile_all) (auto dest: to_dec_digits)
  have dw: "dropWhile is_space (CHR ''-'' # to_dec n) = CHR ''-'' # to_dec n"
    by (simp add: is_space_def)
  show ?thesis
    unfolding stoi_def dw
    using assms by (simp add: Let_def split_sign_def tw int_min_def int_max_def)
qed

end
