(* ===== verification/Uri_Lib.thy ===== *)
theory Uri_Lib
  imports Prelude
begin

text \<open>
  \<open>src/uri_lib.cc\<close>: percent encoding and decoding. Decoding reads the two characters after a \<open>%\<close>
  with \<open>std::istringstream >> std::hex >> short\<close>; what that extraction accepts (white space, a
  sign, a \<open>0x\<close> prefix, a single digit) is part of the model.

  The lemmas show that encoding yields only unreserved characters and escapes, that decoding
  undoes it on every byte string, and when decoding fails.
\<close>

definition hex_char :: "nat \<Rightarrow> char" where
  "hex_char d = (if d < 10 then char_of (48 + d) else char_of (87 + d))"

fun to_hex :: "nat \<Rightarrow> string" where
  "to_hex n = (if n < 16 then [hex_char n] else to_hex (n div 16) @ [hex_char (n mod 16)])"

declare to_hex.simps [simp del]

text \<open>\<open>std::setw(w) << std::setfill('0')\<close>.\<close>

definition pad_zero :: "nat \<Rightarrow> string \<Rightarrow> string" where
  "pad_zero w s = replicate (w - length s) (CHR ''0'') @ s"

definition CharToHex :: "char \<Rightarrow> string" where
  "CharToHex c = ''%'' @ pad_zero 2 (to_hex (ccode c))"

definition xdigit_value :: "char \<Rightarrow> nat" where
  "xdigit_value c =
     (if is_digit c then ccode c - 48 else if ccode c \<le> 70 then ccode c - 55 else ccode c - 87)"

definition hex_value :: "string \<Rightarrow> nat" where
  "hex_value s = foldl (\<lambda>v c. 16 * v + xdigit_value c) 0 s"

definition drop_0x :: "string \<Rightarrow> string" where
  "drop_0x s = (case s of
       z # x # t \<Rightarrow> if z = CHR ''0'' \<and> (x = CHR ''x'' \<or> x = CHR ''X'') then t else s
     | _ \<Rightarrow> s)"

text \<open>\<open>in >> std::hex >> c\<close> with \<open>short c\<close>; \<open>None\<close> is a stream in the failed state.\<close>

definition extract_hex_short :: "string \<Rightarrow> int option" where
  "extract_hex_short s =
     (let (neg, t) = split_sign (dropWhile is_space s);
          ds = takeWhile is_xdigit (drop_0x t);
          v = (if neg then - int (hex_value ds) else int (hex_value ds))
      in if ds = [] then None
         else if v < - (2 ^ 15) \<or> 2 ^ 15 \<le> v then None
         else Some v)"

definition HexToChar :: "string \<Rightarrow> char result" where
  "HexToChar str =
     (if str = [] then Inr (char_of (0 :: nat))
      else case extract_hex_short str of
             None \<Rightarrow> Inl (Raise (Runtime_Error ''stream decode failure''))
           | Some c \<Rightarrow> Inr (char_of (nat (c mod 256))))"

definition unreserved :: "char \<Rightarrow> bool" where
  "unreserved c \<longleftrightarrow> (let t = ccode c in
     t = 45 \<or> (48 \<le> t \<and> t \<le> 57) \<or> (65 \<le> t \<and> t \<le> 90) \<or> t = 95 \<or> (97 \<le> t \<and> t \<le> 122) \<or> t = 126)"

fun UriEncode :: "string \<Rightarrow> string" where
  "UriEncode [] = []"
| "UriEncode (c # cs) = (if unreserved c then [c] else CharToHex c) @ UriEncode cs"

fun UriDecode :: "string \<Rightarrow> string result" where
  "UriDecode [] = Inr []"
| "UriDecode (c # cs) =
     (if c = CHR ''%''
      then bind_res (HexToChar (take 2 cs)) (\<lambda>x.
             bind_res (UriDecode (drop 2 cs)) (\<lambda>t. Inr (x # t)))
      else bind_res (UriDecode cs) (\<lambda>t. Inr ((if c = CHR ''+'' then CHR '' '' else c) # t)))"

subsection \<open>One escape\<close>

lemma hex_char_xdigit: "d < 16 \<Longrightarrow> is_xdigit (hex_char d) \<and> xdigit_value (hex_char d) = d"
  by (auto simp: hex_char_def char_class_simps xdigit_value_def)

lemma xdigit_not_space: "is_xdigit c \<Longrightarrow> \<not> is_space c"
  by (auto simp: char_class_simps)

lemma xdigit_plain: "is_xdigit c \<Longrightarrow> c \<noteq> CHR ''-'' \<and> c \<noteq> CHR ''+'' \<and> c \<noteq> CHR ''x'' \<and> c \<noteq> CHR ''X''"
  by (auto simp: char_class_simps)

lemma hex_value_2: "hex_value [a, b] = 16 * xdigit_value a + xdigit_value b"
  by (simp add: hex_value_def)

lemma xdigit_value_less: "is_xdigit c \<Longrightarrow> xdigit_value c < 16"
  by (auto simp: char_class_simps xdigit_value_def)

lemma HexToChar_pair:
  assumes "is_xdigit a" "is_xdigit b"
  shows "HexToChar [a, b] = Inr (char_of (16 * xdigit_value a + xdigit_value b))"
proof -
  have v: "16 * xdigit_value a + xdigit_value b < 256"
    using assms [THEN xdigit_value_less] by simp
  have "split_sign (dropWhile is_space [a, b]) = (False, [a, b])"
    using xdigit_not_space [OF assms(1)] xdigit_plain [OF assms(1)] by (simp add: split_sign_def)
  moreover have "drop_0x [a, b] = [a, b]"
    using xdigit_plain [OF assms(2)] by (simp add: drop_0x_def)
  ultimately have "extract_hex_short [a, b] = Some (int (16 * xdigit_value a + xdigit_value b))"
    using assms v by (simp add: extract_hex_short_def hex_value_2)
  then show ?thesis
    using v by (simp add: HexToChar_def nat_mod_distrib flip: of_nat_mult of_nat_add)
qed

lemma nibbles: "ccode c div 16 < 16" "ccode c mod 16 < 16"
  using ccode_less [of c] by (simp_all add: div_less_iff_less_mult)

lemma hex_char_0: "hex_char 0 = CHR ''0''"
  by code_simp

lemma CharToHex_eq:
  "CharToHex c = [CHR ''%'', hex_char (ccode c div 16), hex_char (ccode c mod 16)]"
proof -
  show ?thesis
  proof (cases "ccode c < 16")
    case True
    then show ?thesis
      by (simp add: CharToHex_def to_hex.simps [of "ccode c"] pad_zero_def hex_char_0)
  next
    case False
    then show ?thesis
      using nibbles [of c]
      by (simp add: CharToHex_def to_hex.simps [of "ccode c"] to_hex.simps [of "ccode c div 16"]
          pad_zero_def)
  qed
qed

lemma HexToChar_CharToHex: "HexToChar (tl (CharToHex c)) = Inr c"
proof -
  note x = nibbles [THEN hex_char_xdigit]
  have "HexToChar [hex_char (ccode c div 16), hex_char (ccode c mod 16)] =
      Inr (char_of (16 * (ccode c div 16) + ccode c mod 16))"
    using x by (simp add: HexToChar_pair)
  then show ?thesis by (simp add: CharToHex_eq)
qed

text \<open>The only fault of one escape is the exception thrown by \<open>HexToChar\<close>.\<close>

lemma HexToChar_fault: "HexToChar s = Inl e \<Longrightarrow> e = Raise (Runtime_Error ''stream decode failure'')"
  by (auto simp: HexToChar_def split: if_splits option.splits)

subsection \<open>Whole strings\<close>

lemma unreserved_plain: "unreserved c \<Longrightarrow> c \<noteq> CHR ''%'' \<and> c \<noteq> CHR ''+''"
  by (auto simp: unreserved_def)

lemma UriDecode_escape: "UriDecode (CharToHex c @ s) = bind_res (UriDecode s) (\<lambda>t. Inr (c # t))"
  using HexToChar_CharToHex [of c] by (simp add: CharToHex_eq numeral_2_eq_2)

text \<open>
  C23: decoding an encoded string returns the string, for every byte string (NUL, \<open>%\<close>, \<open>+\<close> and
  bytes above 127 included), and raises nothing.
\<close>

theorem UriDecode_UriEncode: "UriDecode (UriEncode s) = Inr s"
proof (induction s)
  case (Cons c s)
  then show ?case
    using unreserved_plain [of c] by (simp add: UriDecode_escape)
qed simp

lemma hex_char_unreserved: "d < 16 \<Longrightarrow> unreserved (hex_char d)"
  by (auto simp: hex_char_def unreserved_def)

lemma CharToHex_chars: "set (CharToHex c) \<subseteq> {x. unreserved x} \<union> {CHR ''%''}"
  by (simp add: CharToHex_eq hex_char_unreserved nibbles)

text \<open>
  The encoded form consists of unreserved characters and \<open>%\<close> only (so no space, slash, line
  break or NUL survives), and is at most three times as long as the input.
\<close>

theorem UriEncode_safe:
  "set (UriEncode s) \<subseteq> {x. unreserved x} \<union> {CHR ''%''} \<and>
   length s \<le> length (UriEncode s) \<and> length (UriEncode s) \<le> 3 * length s"
proof (induction s)
  case (Cons c s)
  then show ?case
    using CharToHex_chars [of c] by (auto simp: CharToHex_eq)
qed simp

text \<open>
  The escapes of a string, as \<open>UriDecode\<close> cuts them: the (up to) two characters after each \<open>%\<close>
  that is not itself part of an escape.
\<close>

fun escapes :: "string \<Rightarrow> string list" where
  "escapes [] = []"
| "escapes (c # cs) = (if c = CHR ''%'' then take 2 cs # escapes (drop 2 cs) else escapes cs)"

text \<open>
  Decoding returns exactly when every escape of the input is acceptable to \<open>HexToChar\<close>; the
  only other outcome is the \<open>std::runtime_error\<close> of \<open>HexToChar\<close>.
\<close>

theorem UriDecode_outcome:
  "(case UriDecode s of
      Inr t \<Rightarrow> list_all (\<lambda>e. returns (HexToChar e)) (escapes s) \<and> length t \<le> length s
    | Inl f \<Rightarrow> \<not> list_all (\<lambda>e. returns (HexToChar e)) (escapes s) \<and>
        f = Raise (Runtime_Error ''stream decode failure''))"
proof (induction s rule: UriDecode.induct)
  case (2 c cs)
  show ?case
  proof (cases "c = CHR ''%''")
    case True
    show ?thesis
    proof (cases "HexToChar (take 2 cs)")
      case (Inl e)
      then show ?thesis using True HexToChar_fault by (auto simp: returns_def)
    next
      case (Inr x)
      show ?thesis
        using "2.IH"(1) [OF True] True Inr by (auto split: sum.splits)
    qed
  next
    case False
    then show ?thesis using "2.IH"(2) by (auto split: sum.splits)
  qed
qed simp

end
