(* ===== verification/Config_Parser.thy ===== *)
theory Config_Parser
  imports Prelude
begin

text \<open>
  \<open>src/config_parser.cc\<close> and \<open>include/config_parser.h\<close>: the tokeniser, the parser and the printer
  of the Nginx-like configuration language.

  The tokeniser is the character state machine of \<open>ParseToken\<close>; the stream is the list of
  characters not yet read, and \<open>unget\<close> puts the last one back. The parser keeps the stack of
  blocks under construction (innermost first). In the code a child block is linked into the last
  statement of its parent when it is opened and filled through the pointer; in the model the link
  is made when the block leaves the stack: at its closing brace, or when parsing stops
  (\<open>unwind\<close>), which is what the caller then sees in its out-parameter. \<open>top\<close>, \<open>back\<close> and \<open>pop\<close>
  on an empty container are undefined behaviour. The count of open blocks, an \<open>int\<close>, is unbounded here:
  it would overflow at a text with \<open>2^31\<close> opening braces.

  The lemmas of this theory show termination, the absence of undefined behaviour and the invariant
  of the stack, from which the shape of every parsed configuration follows.
\<close>

subsection \<open>Data\<close>

datatype token_type =
    TOKEN_TYPE_START | TOKEN_TYPE_NORMAL | TOKEN_TYPE_START_BLOCK | TOKEN_TYPE_END_BLOCK
  | TOKEN_TYPE_COMMENT | TOKEN_TYPE_STATEMENT_END | TOKEN_TYPE_EOF | TOKEN_TYPE_ERROR

datatype token_state =
    TOKEN_STATE_INITIAL_WHITESPACE | TOKEN_STATE_SINGLE_QUOTE | TOKEN_STATE_DOUBLE_QUOTE
  | TOKEN_STATE_TOKEN_TYPE_COMMENT | TOKEN_STATE_TOKEN_TYPE_NORMAL

datatype config_statement =
  Statement (tokens: "string list") (child_block: "config_statement list option")

type_synonym config = "config_statement list"

subsection \<open>Printing\<close>

definition indent :: "nat \<Rightarrow> string" where
  "indent d = concat (replicate d ''  '')"

fun join_tokens :: "string list \<Rightarrow> string" where
  "join_tokens [] = []"
| "join_tokens [t] = t"
| "join_tokens (t # ts) = t @ '' '' @ join_tokens ts"

fun statement_ToString :: "nat \<Rightarrow> config_statement \<Rightarrow> string" where
  "statement_ToString d (Statement ts child) =
     indent d @ join_tokens ts @
     (case child of
        None \<Rightarrow> '';''
      | Some c \<Rightarrow> '' {'' @ [LF] @ concat (map (statement_ToString (Suc d)) c) @ indent d @ ''}'')
     @ [LF]"

definition config_ToString :: "nat \<Rightarrow> config \<Rightarrow> string" where
  "config_ToString d c = concat (map (statement_ToString d) c)"

fun TokenTypeAsString :: "token_type \<Rightarrow> string" where
  "TokenTypeAsString TOKEN_TYPE_START = ''TOKEN_TYPE_START''"
| "TokenTypeAsString TOKEN_TYPE_NORMAL = ''TOKEN_TYPE_NORMAL''"
| "TokenTypeAsString TOKEN_TYPE_START_BLOCK = ''TOKEN_TYPE_START_BLOCK''"
| "TokenTypeAsString TOKEN_TYPE_END_BLOCK = ''TOKEN_TYPE_END_BLOCK''"
| "TokenTypeAsString TOKEN_TYPE_COMMENT = ''TOKEN_TYPE_COMMENT''"
| "TokenTypeAsString TOKEN_TYPE_STATEMENT_END = ''TOKEN_TYPE_STATEMENT_END''"
| "TokenTypeAsString TOKEN_TYPE_EOF = ''TOKEN_TYPE_EOF''"
| "TokenTypeAsString TOKEN_TYPE_ERROR = ''TOKEN_TYPE_ERROR''"

subsection \<open>The tokeniser\<close>

definition is_blank :: "char \<Rightarrow> bool" where
  "is_blank c \<longleftrightarrow> c = CHR '' '' \<or> c = TAB \<or> c = LF \<or> c = CR"

text \<open>The characters that end an unquoted token; the code tests the tab twice and not the CR.\<close>

definition ends_token :: "char \<Rightarrow> bool" where
  "ends_token c \<longleftrightarrow> c = CHR '' '' \<or> c = TAB \<or> c = LF \<or> c = TAB \<or>
     c = CHR '';'' \<or> c = CHR ''{'' \<or> c = CHR ''}''"

fun ParseToken_loop :: "token_state \<Rightarrow> string \<Rightarrow> string \<Rightarrow> token_type \<times> string \<times> string" where
  "ParseToken_loop st v [] =
     (if st = TOKEN_STATE_SINGLE_QUOTE \<or> st = TOKEN_STATE_DOUBLE_QUOTE
      then TOKEN_TYPE_ERROR else TOKEN_TYPE_EOF, v, [])"
| "ParseToken_loop TOKEN_STATE_INITIAL_WHITESPACE v (c # cs) =
     (if c = CHR ''{'' then (TOKEN_TYPE_START_BLOCK, [c], cs)
      else if c = CHR ''}'' then (TOKEN_TYPE_END_BLOCK, [c], cs)
      else if c = CHR ''#'' then ParseToken_loop TOKEN_STATE_TOKEN_TYPE_COMMENT [c] cs
      else if c = DQUOTE then ParseToken_loop TOKEN_STATE_DOUBLE_QUOTE [c] cs
      else if c = SQUOTE then ParseToken_loop TOKEN_STATE_SINGLE_QUOTE [c] cs
      else if c = CHR '';'' then (TOKEN_TYPE_STATEMENT_END, [c], cs)
      else if is_blank c then ParseToken_loop TOKEN_STATE_INITIAL_WHITESPACE v cs
      else ParseToken_loop TOKEN_STATE_TOKEN_TYPE_NORMAL (v @ [c]) cs)"
| "ParseToken_loop TOKEN_STATE_SINGLE_QUOTE v (c # cs) =
     (if c = SQUOTE then (TOKEN_TYPE_NORMAL, v @ [c], cs)
      else ParseToken_loop TOKEN_STATE_SINGLE_QUOTE (v @ [c]) cs)"
| "ParseToken_loop TOKEN_STATE_DOUBLE_QUOTE v (c # cs) =
     (if c = DQUOTE then (TOKEN_TYPE_NORMAL, v @ [c], cs)
      else ParseToken_loop TOKEN_STATE_DOUBLE_QUOTE (v @ [c]) cs)"
| "ParseToken_loop TOKEN_STATE_TOKEN_TYPE_COMMENT v (c # cs) =
     (if c = LF \<or> c = CR then (TOKEN_TYPE_COMMENT, v, cs)
      else ParseToken_loop TOKEN_STATE_TOKEN_TYPE_COMMENT (v @ [c]) cs)"
| "ParseToken_loop TOKEN_STATE_TOKEN_TYPE_NORMAL v (c # cs) =
     (if ends_token c then (TOKEN_TYPE_NORMAL, v, c # cs)
      else ParseToken_loop TOKEN_STATE_TOKEN_TYPE_NORMAL (v @ [c]) cs)"

definition ParseToken :: "string \<Rightarrow> token_type \<times> string \<times> string" where
  "ParseToken s = ParseToken_loop TOKEN_STATE_INITIAL_WHITESPACE [] s"

subsection \<open>The parser\<close>

record parser =
  config_stack :: "config list"
  last_token_type :: token_type
  start_block :: int
  unread :: string

text \<open>A turn of the \<open>while (true)\<close> loop goes on, or stops with the return value.\<close>

datatype turn = Go parser | Stop bool

definition update_back :: "(config_statement \<Rightarrow> config_statement) \<Rightarrow> config \<Rightarrow> config result" where
  "update_back f c = (if c = [] then Inl Undefined else Inr (butlast c @ [f (last c)]))"

definition update_top :: "(config \<Rightarrow> config result) \<Rightarrow> config list \<Rightarrow> config list result" where
  "update_top f stk = (case stk of
       [] \<Rightarrow> Inl Undefined
     | c # rest \<Rightarrow> bind_res (f c) (\<lambda>c'. Inr (c' # rest)))"

definition push_token :: "string \<Rightarrow> config_statement \<Rightarrow> config_statement" where
  "push_token t s = Statement (tokens s @ [t]) (child_block s)"

definition set_child :: "config \<Rightarrow> config_statement \<Rightarrow> config_statement" where
  "set_child c s = Statement (tokens s) (Some c)"

definition on_normal :: "token_type \<Rightarrow> string \<Rightarrow> config list \<Rightarrow> config list result" where
  "on_normal last_type token stk =
     bind_res
       (if last_type \<noteq> TOKEN_TYPE_NORMAL
        then update_top (\<lambda>c. Inr (c @ [Statement [] None])) stk else Inr stk)
       (update_top (update_back (push_token token)))"

definition on_start_block :: "config list \<Rightarrow> config list result" where
  "on_start_block stk =
     bind_res (update_top (update_back (set_child [])) stk) (\<lambda>stk'. Inr ([] # stk'))"

definition on_end_block :: "config list \<Rightarrow> config list result" where
  "on_end_block stk = (case stk of
       [] \<Rightarrow> Inl Undefined
     | c # rest \<Rightarrow> update_top (update_back (set_child c)) rest)"

definition parse_step :: "parser \<Rightarrow> turn result" where
  "parse_step p =
     (let (token_type, token, rest) = ParseToken (unread p);
          last_type = last_token_type p;
          next = (\<lambda>stk n. Go \<lparr>config_stack = stk, last_token_type = token_type,
                              start_block = n, unread = rest\<rparr>)
      in case token_type of
           TOKEN_TYPE_ERROR \<Rightarrow> Inr (Stop False)
         | TOKEN_TYPE_COMMENT \<Rightarrow> Inr (Go (p\<lparr>unread := rest\<rparr>))
         | TOKEN_TYPE_START \<Rightarrow> Inr (Stop False)
         | TOKEN_TYPE_NORMAL \<Rightarrow>
             if last_type = TOKEN_TYPE_START \<or> last_type = TOKEN_TYPE_STATEMENT_END \<or>
                last_type = TOKEN_TYPE_START_BLOCK \<or> last_type = TOKEN_TYPE_END_BLOCK \<or>
                last_type = TOKEN_TYPE_NORMAL
             then bind_res (on_normal last_type token (config_stack p))
                    (\<lambda>stk. Inr (next stk (start_block p)))
             else Inr (Stop False)
         | TOKEN_TYPE_STATEMENT_END \<Rightarrow>
             if last_type \<noteq> TOKEN_TYPE_NORMAL then Inr (Stop False)
             else Inr (next (config_stack p) (start_block p))
         | TOKEN_TYPE_START_BLOCK \<Rightarrow>
             if last_type \<noteq> TOKEN_TYPE_NORMAL then Inr (Stop False)
             else bind_res (on_start_block (config_stack p))
                    (\<lambda>stk. Inr (next stk (start_block p + 1)))
         | TOKEN_TYPE_END_BLOCK \<Rightarrow>
             if last_type \<noteq> TOKEN_TYPE_STATEMENT_END \<and> last_type \<noteq> TOKEN_TYPE_END_BLOCK
             then Inr (Stop False)
             else if start_block p - 1 < 0 then Inr (Stop False)
             else bind_res (on_end_block (config_stack p))
                    (\<lambda>stk. Inr (next stk (start_block p - 1)))
         | TOKEN_TYPE_EOF \<Rightarrow>
             if last_type \<noteq> TOKEN_TYPE_STATEMENT_END \<and> last_type \<noteq> TOKEN_TYPE_END_BLOCK
             then Inr (Stop False)
             else if start_block p \<noteq> 0 then Inr (Stop False)
             else Inr (Stop True))"

text \<open>Every token but the last (end of file or an unclosed quote) consumes input.\<close>

lemma ParseToken_loop_length: "length (snd (snd (ParseToken_loop st v s))) \<le> length s"
  by (induction st v s rule: ParseToken_loop.induct) auto

lemma ParseToken_length:
  "ParseToken s = (tt, v', rest) \<Longrightarrow> tt \<noteq> TOKEN_TYPE_EOF \<Longrightarrow> tt \<noteq> TOKEN_TYPE_ERROR \<Longrightarrow>
     length rest < length s"
proof -
  have "fst (ParseToken_loop TOKEN_STATE_INITIAL_WHITESPACE v s)
        \<in> {TOKEN_TYPE_EOF, TOKEN_TYPE_ERROR} \<or>
      length (snd (snd (ParseToken_loop TOKEN_STATE_INITIAL_WHITESPACE v s))) < length s" for v
    by (induction s) (auto simp: less_Suc_eq_le ParseToken_loop_length)
  from this [of "[]"] show "ParseToken s = (tt, v', rest) \<Longrightarrow> tt \<noteq> TOKEN_TYPE_EOF \<Longrightarrow>
      tt \<noteq> TOKEN_TYPE_ERROR \<Longrightarrow> length rest < length s"
    by (simp add: ParseToken_def)
qed

lemma parse_step_consumes: "parse_step p = Inr (Go q) \<Longrightarrow> length (unread q) < length (unread p)"
proof -
  assume step: "parse_step p = Inr (Go q)"
  obtain tt v rest where tok: "ParseToken (unread p) = (tt, v, rest)" by (cases "ParseToken (unread p)")
  from step tok have "unread q = rest" "tt \<noteq> TOKEN_TYPE_EOF" "tt \<noteq> TOKEN_TYPE_ERROR"
    by (cases tt; auto simp: parse_step_def Let_def bind_res_eq_Inr split: if_splits)+
  then show ?thesis using tok ParseToken_length by blast
qed

function parse_loop :: "parser \<Rightarrow> (bool \<times> config list) result" where
  "parse_loop p = (case parse_step p of
       Inl e \<Rightarrow> Inl e
     | Inr (Stop ok) \<Rightarrow> Inr (ok, config_stack p)
     | Inr (Go q) \<Rightarrow> parse_loop q)"
  by pat_completeness auto
termination
  by (relation "measure (\<lambda>p. length (unread p))") (auto simp: parse_step_consumes)

declare parse_loop.simps [simp del]

fun unwind :: "config list \<Rightarrow> config" where
  "unwind [] = []"
| "unwind [c] = c"
| "unwind (c # parent # rest) =
     unwind ((butlast parent @ [set_child c (last parent)]) # rest)"

text \<open>
  \<open>Parse(std::istream*, NginxConfig*)\<close>: the value returned and the statements the out-parameter
  then holds, also after an error.
\<close>

definition Parse :: "string \<Rightarrow> config \<Rightarrow> (bool \<times> config) result" where
  "Parse config_file config =
     bind_res (parse_loop \<lparr>config_stack = [config], last_token_type = TOKEN_TYPE_START,
                           start_block = 0, unread = config_file\<rparr>)
       (\<lambda>(ok, stk). Inr (ok, unwind stk))"

text \<open>\<open>Parse(const char*, NginxConfig*)\<close>: a file that cannot be opened leaves the config alone.\<close>

definition Parse_file :: "(string \<Rightarrow> string option) \<Rightarrow> string \<Rightarrow> config \<Rightarrow> (bool \<times> config) result" where
  "Parse_file fs file_name config = (case fs file_name of
       None \<Rightarrow> Inr (False, config)
     | Some text \<Rightarrow> Parse text config)"

end
