(* ===== verification/Config_Correct.thy ===== *)
theory Config_Correct
  imports Config_Parser
begin

text \<open>
  What \<open>NginxConfigParser::Parse\<close> guarantees: the invariant of its loop, the shape of parsed
  configurations, and the round trip through the printer.
\<close>

subsection \<open>Well-formed tokens and configurations\<close>

definition starts_token :: "char \<Rightarrow> bool" where
  "starts_token c \<longleftrightarrow> \<not> is_blank c \<and> c \<notin> {CHR ''{'', CHR ''}'', CHR ''#'', DQUOTE, SQUOTE, CHR '';''}"

definition plain_token :: "string \<Rightarrow> bool" where
  "plain_token t \<longleftrightarrow> (case t of
       [] \<Rightarrow> False
     | c # cs \<Rightarrow> starts_token c \<and> list_all (\<lambda>x. \<not> ends_token x) cs)"

definition quoted_token :: "char \<Rightarrow> string \<Rightarrow> bool" where
  "quoted_token q t \<longleftrightarrow> (\<exists>body. t = q # body @ [q] \<and> q \<notin> set body)"

definition wf_token :: "string \<Rightarrow> bool" where
  "wf_token t \<longleftrightarrow> plain_token t \<or> quoted_token SQUOTE t \<or> quoted_token DQUOTE t"

fun complete :: "config_statement \<Rightarrow> bool" where
  "complete (Statement ts child) \<longleftrightarrow>
     ts \<noteq> [] \<and> list_all wf_token ts \<and>
     (case child of None \<Rightarrow> True | Some c \<Rightarrow> c \<noteq> [] \<and> list_all complete c)"

definition wf_config :: "config \<Rightarrow> bool" where
  "wf_config c \<longleftrightarrow> list_all complete c"

text \<open>The weaker shape that also holds after an error: every statement has a token.\<close>

fun has_tokens :: "config_statement \<Rightarrow> bool" where
  "has_tokens (Statement ts child) \<longleftrightarrow>
     ts \<noteq> [] \<and> (case child of None \<Rightarrow> True | Some c \<Rightarrow> list_all has_tokens c)"

lemma complete_has_tokens: "complete s \<Longrightarrow> has_tokens s"
  by (induction s rule: complete.induct) (auto simp: list_all_iff split: option.splits)

subsection \<open>The tokens the tokeniser produces\<close>

lemma loop_quote:
  assumes "q = SQUOTE \<and> st = TOKEN_STATE_SINGLE_QUOTE \<or> q = DQUOTE \<and> st = TOKEN_STATE_DOUBLE_QUOTE"
  shows "q \<notin> set body \<Longrightarrow> ParseToken_loop st v (body @ q # rest) =
      (TOKEN_TYPE_NORMAL, v @ body @ [q], rest)"
  using assms by (induction body arbitrary: v) auto

lemma loop_quote_NORMAL:
  assumes "ParseToken_loop st v s = (TOKEN_TYPE_NORMAL, t, rest)"
    and "q = SQUOTE \<and> st = TOKEN_STATE_SINGLE_QUOTE \<or> q = DQUOTE \<and> st = TOKEN_STATE_DOUBLE_QUOTE"
  shows "\<exists>body. t = v @ body @ [q] \<and> q \<notin> set body"
  using assms
proof (induction s arbitrary: v)
  case (Cons c s)
  show ?case
  proof (cases "c = q")
    case True
    with Cons.prems show ?thesis by (intro exI [of _ "[]"]) auto
  next
    case False
    with Cons.prems have "ParseToken_loop st (v @ [c]) s = (TOKEN_TYPE_NORMAL, t, rest)" by auto
    then obtain body where "t = (v @ [c]) @ body @ [q]" "q \<notin> set body"
      using Cons.IH Cons.prems(2) by blast
    with False show ?thesis by (intro exI [of _ "c # body"]) auto
  qed
qed auto

lemma loop_plain:
  "list_all (\<lambda>x. \<not> ends_token x) w \<Longrightarrow> ends_token c \<Longrightarrow>
     ParseToken_loop TOKEN_STATE_TOKEN_TYPE_NORMAL v (w @ c # rest) = (TOKEN_TYPE_NORMAL, v @ w, c # rest)"
  by (induction w arbitrary: v) auto

lemma loop_plain_NORMAL:
  "ParseToken_loop TOKEN_STATE_TOKEN_TYPE_NORMAL v s = (TOKEN_TYPE_NORMAL, t, rest) \<Longrightarrow>
     \<exists>w. t = v @ w \<and> list_all (\<lambda>x. \<not> ends_token x) w"
proof (induction s arbitrary: v)
  case (Cons c s)
  show ?case
  proof (cases "ends_token c")
    case False
    with Cons.prems have
      "ParseToken_loop TOKEN_STATE_TOKEN_TYPE_NORMAL (v @ [c]) s = (TOKEN_TYPE_NORMAL, t, rest)" by simp
    from Cons.IH [OF this] obtain w where "t = (v @ [c]) @ w" "list_all (\<lambda>x. \<not> ends_token x) w"
      by blast
    with False show ?thesis by (intro exI [of _ "c # w"]) auto
  qed (use Cons.prems in auto)
qed auto

lemma loop_comment_not_NORMAL:
  "ParseToken_loop TOKEN_STATE_TOKEN_TYPE_COMMENT v s \<noteq> (TOKEN_TYPE_NORMAL, t, rest)"
  by (induction s arbitrary: v) auto

lemma ParseToken_NORMAL_wf:
  "ParseToken s = (TOKEN_TYPE_NORMAL, t, rest) \<Longrightarrow> wf_token t"
  unfolding ParseToken_def
proof (induction s)
  case (Cons c s)
  consider "is_blank c" | "c = DQUOTE \<or> c = SQUOTE" | "starts_token c"
    | "c \<in> {CHR ''{'', CHR ''}'', CHR ''#'', CHR '';''}"
    by (auto simp: starts_token_def)
  then show ?case
  proof cases
    case 1
    with Cons show ?thesis by (auto simp: is_blank_def)
  next
    case 2
    then show ?thesis
      using Cons.prems loop_quote_NORMAL [of _ "[c]" s t rest c]
      by (auto simp: wf_token_def quoted_token_def)
  next
    case 3
    then have "ParseToken_loop TOKEN_STATE_TOKEN_TYPE_NORMAL [c] s = (TOKEN_TYPE_NORMAL, t, rest)"
      using Cons.prems by (auto simp: starts_token_def split: if_splits)
    then show ?thesis
      using 3 loop_plain_NORMAL by (fastforce simp: wf_token_def plain_token_def)
  next
    case 4
    then show ?thesis using Cons.prems by (auto simp: loop_comment_not_NORMAL)
  qed
qed simp

lemma ParseToken_blank: "list_all is_blank ws \<Longrightarrow> ParseToken (ws @ s) = ParseToken s"
  unfolding ParseToken_def by (induction ws) (auto simp: is_blank_def)

lemma ParseToken_wf:
  assumes "wf_token t" "ends_token c"
  shows "ParseToken (t @ c # rest) = (TOKEN_TYPE_NORMAL, t, c # rest)"
  using assms(1) unfolding wf_token_def
proof (elim disjE)
  assume "plain_token t"
  then obtain x xs where t: "t = x # xs" "starts_token x" "list_all (\<lambda>y. \<not> ends_token y) xs"
    by (auto simp: plain_token_def split: list.splits)
  then show ?thesis
    using loop_plain [OF t(3) assms(2), of "[x]" rest]
    by (auto simp: ParseToken_def starts_token_def)
qed (auto simp: quoted_token_def ParseToken_def loop_quote)

subsection \<open>The invariant of the parser loop\<close>

definition open_frame :: "config \<Rightarrow> bool" where
  "open_frame c \<longleftrightarrow> c \<noteq> [] \<and> list_all complete (butlast c) \<and>
     tokens (last c) \<noteq> [] \<and> list_all wf_token (tokens (last c))"

definition top_frame :: "token_type \<Rightarrow> config \<Rightarrow> bool" where
  "top_frame last_type c = (case last_type of
       TOKEN_TYPE_START \<Rightarrow> wf_config c
     | TOKEN_TYPE_NORMAL \<Rightarrow> open_frame c \<and> child_block (last c) = None
     | TOKEN_TYPE_START_BLOCK \<Rightarrow> c = []
     | TOKEN_TYPE_STATEMENT_END \<Rightarrow> c \<noteq> [] \<and> wf_config c
     | TOKEN_TYPE_END_BLOCK \<Rightarrow> c \<noteq> [] \<and> wf_config c
     | _ \<Rightarrow> False)"

definition parser_inv :: "parser \<Rightarrow> bool" where
  "parser_inv p \<longleftrightarrow> (case config_stack p of
       [] \<Rightarrow> False
     | c # rest \<Rightarrow> top_frame (last_token_type p) c \<and> list_all open_frame rest \<and>
         start_block p = int (length rest) \<and>
         (last_token_type p = TOKEN_TYPE_START \<longrightarrow> rest = []))"

lemma parser_inv_simp [simp]:
  "parser_inv \<lparr>config_stack = c # rest, last_token_type = tt, start_block = n, unread = s\<rparr> \<longleftrightarrow>
     top_frame tt c \<and> list_all open_frame rest \<and> n = int (length rest) \<and>
     (tt = TOKEN_TYPE_START \<longrightarrow> rest = [])"
  by (simp add: parser_inv_def)

lemma update_back_snoc [simp]: "update_back f (c @ [s]) = Inr (c @ [f s])"
  by (simp add: update_back_def)

lemma open_frame_snoc [simp]:
  "open_frame (c @ [s]) \<longleftrightarrow> wf_config c \<and> tokens s \<noteq> [] \<and> list_all wf_token (tokens s)"
  by (simp add: open_frame_def wf_config_def)

lemma wf_config_Nil [simp]: "wf_config []"
  by (simp add: wf_config_def)

lemma open_frame_single [simp]:
  "open_frame [s] \<longleftrightarrow> tokens s \<noteq> [] \<and> list_all wf_token (tokens s)"
  using open_frame_snoc [of "[]" s] by simp

lemma open_frameE:
  assumes "open_frame c"
  obtains c' s where "c = c' @ [s]" "wf_config c'" "tokens s \<noteq> []" "list_all wf_token (tokens s)"
  using assms by (cases c rule: rev_cases) (auto simp: open_frame_def wf_config_def)

lemma wf_config_snoc [simp]: "wf_config (c @ [s]) \<longleftrightarrow> wf_config c \<and> complete s"
  by (simp add: wf_config_def)

lemma complete_None: "complete s \<longleftrightarrow> tokens s \<noteq> [] \<and> list_all wf_token (tokens s)"
  if "child_block s = None"
  using that by (cases s) simp

lemma complete_set_child:
  "complete (set_child c s) \<longleftrightarrow>
     tokens s \<noteq> [] \<and> list_all wf_token (tokens s) \<and> c \<noteq> [] \<and> wf_config c"
  by (simp add: set_child_def wf_config_def)

text \<open>What the three operations on the stack do under the invariant.\<close>

lemma on_normal_new:
  "tt \<noteq> TOKEN_TYPE_NORMAL \<Longrightarrow>
     on_normal tt t (c # rest) = Inr ((c @ [Statement [t] None]) # rest)"
  by (simp add: on_normal_def update_top_def push_token_def)

lemma on_normal_more:
  "on_normal TOKEN_TYPE_NORMAL t ((c @ [s]) # rest) = Inr ((c @ [push_token t s]) # rest)"
  by (simp add: on_normal_def update_top_def)

lemma on_start_block_snoc:
  "on_start_block ((c @ [s]) # rest) = Inr ([] # (c @ [set_child [] s]) # rest)"
  by (simp add: on_start_block_def update_top_def)

lemma on_end_block_snoc:
  "on_end_block (b # (c @ [s]) # rest) = Inr ((c @ [set_child b s]) # rest)"
  by (simp add: on_end_block_def update_top_def)

text \<open>Only these types are ever remembered as the last one.\<close>

lemma top_frame_types:
  "top_frame tt c \<Longrightarrow> tt \<in> {TOKEN_TYPE_START, TOKEN_TYPE_NORMAL, TOKEN_TYPE_START_BLOCK,
     TOKEN_TYPE_STATEMENT_END, TOKEN_TYPE_END_BLOCK}"
  by (cases tt) (simp_all add: top_frame_def)

lemma step_inv_normal:
  assumes "parser_inv p" "ParseToken (unread p) = (TOKEN_TYPE_NORMAL, t, rest)"
  shows "\<exists>q. parse_step p = Inr (Go q) \<and> parser_inv q"
proof -
  from assms(1) obtain c stk where stk: "config_stack p = c # stk"
    and inv: "top_frame (last_token_type p) c" "list_all open_frame stk" "start_block p = int (length stk)"
    by (auto simp: parser_inv_def split: list.splits)
  have t: "wf_token t" using assms(2) by (rule ParseToken_NORMAL_wf)
  show ?thesis
  proof (cases "last_token_type p = TOKEN_TYPE_NORMAL")
    case True
    with inv obtain c' s where c: "c = c' @ [s]" "wf_config c'" "tokens s \<noteq> []"
      "list_all wf_token (tokens s)" "child_block s = None"
      by (auto simp: top_frame_def elim!: open_frameE)
    then show ?thesis
      using True inv stk t assms(2)
      by (simp add: parse_step_def on_normal_more push_token_def top_frame_def)
  next
    case False
    then have "wf_config c"
      using inv(1) by (cases "last_token_type p") (auto simp: top_frame_def wf_config_def)
    then show ?thesis
      using False inv stk t assms(2) top_frame_types [OF inv(1)]
      by (auto simp: parse_step_def on_normal_new top_frame_def)
  qed
qed

theorem parse_step_inv:
  assumes "parser_inv p"
  shows "(\<exists>q. parse_step p = Inr (Go q) \<and> parser_inv q) \<or> parse_step p = Inr (Stop False) \<or>
    (parse_step p = Inr (Stop True) \<and> (\<exists>c. config_stack p = [c] \<and> c \<noteq> [] \<and> wf_config c))"
proof -
  obtain tt t rest where tok: "ParseToken (unread p) = (tt, t, rest)" by (cases "ParseToken (unread p)")
  from assms obtain c stk where stk: "config_stack p = c # stk"
    and inv: "top_frame (last_token_type p) c" "list_all open_frame stk"
      "start_block p = int (length stk)" "last_token_type p = TOKEN_TYPE_START \<longrightarrow> stk = []"
    by (auto simp: parser_inv_def split: list.splits)
  show ?thesis
  proof (cases tt)
    case TOKEN_TYPE_NORMAL
    then show ?thesis using step_inv_normal assms tok by blast
  next
    case TOKEN_TYPE_COMMENT
    then show ?thesis using tok inv stk by (simp add: parse_step_def parser_inv_def)
  next
    case TOKEN_TYPE_STATEMENT_END
    show ?thesis
    proof (cases "last_token_type p = TOKEN_TYPE_NORMAL")
      case True
      with inv obtain c' s where "c = c' @ [s]" "wf_config c'" "tokens s \<noteq> []"
        "list_all wf_token (tokens s)" "child_block s = None"
        by (auto simp: top_frame_def elim!: open_frameE)
      then show ?thesis
        using True TOKEN_TYPE_STATEMENT_END tok stk inv
        by (simp add: parse_step_def top_frame_def complete_None)
    qed (use TOKEN_TYPE_STATEMENT_END tok in \<open>simp add: parse_step_def\<close>)
  next
    case TOKEN_TYPE_START_BLOCK
    show ?thesis
    proof (cases "last_token_type p = TOKEN_TYPE_NORMAL")
      case True
      with inv obtain c' s where "c = c' @ [s]" "wf_config c'" "tokens s \<noteq> []"
        "list_all wf_token (tokens s)"
        by (auto simp: top_frame_def elim!: open_frameE)
      then show ?thesis
        using True TOKEN_TYPE_START_BLOCK tok stk inv
        by (simp add: parse_step_def on_start_block_snoc top_frame_def set_child_def)
    qed (use TOKEN_TYPE_START_BLOCK tok in \<open>simp add: parse_step_def\<close>)
  next
    case TOKEN_TYPE_END_BLOCK
    show ?thesis
    proof (cases "(last_token_type p = TOKEN_TYPE_STATEMENT_END \<or>
        last_token_type p = TOKEN_TYPE_END_BLOCK) \<and> stk \<noteq> []")
      case True
      then obtain d stk' where d: "stk = d # stk'" by (cases stk) auto
      with inv obtain d' s where "d = d' @ [s]" "wf_config d'" "tokens s \<noteq> []"
        "list_all wf_token (tokens s)"
        by (auto elim!: open_frameE)
      moreover have "c \<noteq> []" "wf_config c" using True inv(1) by (auto simp: top_frame_def)
      ultimately show ?thesis
        using True TOKEN_TYPE_END_BLOCK tok stk inv d
        by (auto simp: parse_step_def on_end_block_snoc top_frame_def complete_set_child)
    next
      case False
      then show ?thesis using TOKEN_TYPE_END_BLOCK tok inv by (auto simp: parse_step_def)
    qed
  next
    case TOKEN_TYPE_EOF
    then show ?thesis
      using tok inv stk
      by (cases "last_token_type p"; cases stk) (auto simp: parse_step_def Let_def top_frame_def)
  qed (use tok in \<open>simp_all add: parse_step_def\<close>)
qed

lemma parse_loop_inv:
  "parser_inv p \<Longrightarrow> \<exists>ok p'. parse_loop p = Inr (ok, config_stack p') \<and> parser_inv p' \<and>
     (ok \<longrightarrow> (\<exists>c. config_stack p' = [c] \<and> c \<noteq> [] \<and> wf_config c))"
proof (induction p rule: parse_loop.induct)
  case (1 p)
  from parse_step_inv [OF "1.prems"] consider
      (go) q where "parse_step p = Inr (Go q)" "parser_inv q"
    | (no) "parse_step p = Inr (Stop False)"
    | (yes) "parse_step p = Inr (Stop True)" "\<exists>c. config_stack p = [c] \<and> c \<noteq> [] \<and> wf_config c"
    by blast
  then show ?case
  proof cases
    case go
    then show ?thesis using "1.IH" by (simp add: parse_loop.simps [of p])
  next
    case no
    then show ?thesis using "1.prems" by (auto simp: parse_loop.simps [of p])
  next
    case yes
    then show ?thesis using "1.prems" by (auto simp: parse_loop.simps [of p])
  qed
qed

lemma has_tokens_set_child: "tokens s \<noteq> [] \<Longrightarrow> list_all has_tokens c \<Longrightarrow> has_tokens (set_child c s)"
  by (simp add: set_child_def)

lemma unwind_has_tokens:
  "list_all has_tokens c \<Longrightarrow> list_all open_frame stk \<Longrightarrow> list_all has_tokens (unwind (c # stk))"
proof (induction stk arbitrary: c)
  case (Cons d stk)
  from Cons.prems obtain d' s where "d = d' @ [s]" "wf_config d'" "tokens s \<noteq> []"
    by (auto elim!: open_frameE)
  with Cons.prems have "list_all has_tokens (d' @ [set_child c s])"
    by (auto simp: has_tokens_set_child wf_config_def list_all_iff complete_has_tokens)
  with Cons.IH Cons.prems \<open>d = d' @ [s]\<close> show ?case by simp
qed simp

lemma top_frame_has_tokens: "top_frame tt c \<Longrightarrow> list_all has_tokens c"
proof -
  have "list_all has_tokens c" if "wf_config c"
    using that by (auto simp: wf_config_def list_all_iff complete_has_tokens)
  moreover have "list_all has_tokens c" if opn: "open_frame c" and no: "child_block (last c) = None"
  proof -
    from opn obtain c' s where c: "c = c' @ [s]" "wf_config c'" "tokens s \<noteq> []"
      by (auto elim!: open_frameE)
    then have "has_tokens s" using no by (cases s) simp
    with c show ?thesis by (auto simp: wf_config_def list_all_iff complete_has_tokens)
  qed
  ultimately show "top_frame tt c \<Longrightarrow> list_all has_tokens c"
    by (cases tt) (auto simp: top_frame_def)
qed

lemma Parse_total:
  "\<exists>ok c. Parse text [] = Inr (ok, c) \<and> list_all has_tokens c"
proof -
  have "parser_inv \<lparr>config_stack = [[]], last_token_type = TOKEN_TYPE_START, start_block = 0,
      unread = text\<rparr>"
    by (simp add: top_frame_def wf_config_def)
  from parse_loop_inv [OF this] obtain ok p where
    loop: "parse_loop \<lparr>config_stack = [[]], last_token_type = TOKEN_TYPE_START, start_block = 0,
      unread = text\<rparr> = Inr (ok, config_stack p)" and inv: "parser_inv p"
    by blast
  have "list_all has_tokens (unwind (config_stack p))"
    using inv unwind_has_tokens top_frame_has_tokens
    by (auto simp: parser_inv_def split: list.splits)
  with loop show ?thesis by (simp add: Parse_def)
qed

text \<open>
  C24: parsing any text into an empty configuration returns: it never reads the top of an empty
  stack or the back of an empty vector, and, accepted or not, leaves a configuration in which every
  statement at every depth has at least one token.
\<close>

theorem Parse_safe:
  "\<exists>ok c. Parse text [] = Inr (ok, c) \<and> list_all has_tokens c"
  by (rule Parse_total)

text \<open>The shape of an accepted configuration.\<close>

lemma Parse_accepts_wf:
  assumes "Parse text [] = Inr (True, c)"
  shows "c \<noteq> [] \<and> wf_config c"
proof -
  have "parser_inv \<lparr>config_stack = [[]], last_token_type = TOKEN_TYPE_START, start_block = 0,
      unread = text\<rparr>"
    by (simp add: top_frame_def wf_config_def)
  from parse_loop_inv [OF this] assms show ?thesis
    by (auto simp: Parse_def)
qed

end
