(* ===== verification/Config_Roundtrip.thy ===== *)
theory Config_Roundtrip
  imports Config_Correct
begin

text \<open>
  Printing a well-formed configuration and parsing the text gives the configuration back, at any
  nesting depth. Each lemma runs the parser over one piece of printed text.
\<close>

abbreviation prs :: "config list \<Rightarrow> token_type \<Rightarrow> int \<Rightarrow> string \<Rightarrow> parser" where
  "prs stk tt n s \<equiv> \<lparr>config_stack = stk, last_token_type = tt, start_block = n, unread = s\<rparr>"

definition statement_may_start :: "token_type \<Rightarrow> bool" where
  "statement_may_start tt \<longleftrightarrow> tt \<in> {TOKEN_TYPE_START, TOKEN_TYPE_STATEMENT_END,
     TOKEN_TYPE_START_BLOCK, TOKEN_TYPE_END_BLOCK}"

definition end_type :: "config_statement \<Rightarrow> token_type" where
  "end_type s = (case child_block s of None \<Rightarrow> TOKEN_TYPE_STATEMENT_END | Some _ \<Rightarrow> TOKEN_TYPE_END_BLOCK)"

lemma end_type_may_start [simp]: "statement_may_start (end_type s)"
  by (simp add: end_type_def statement_may_start_def split: option.split)

lemma ends_token_simps [simp]:
  "ends_token (CHR '' '')" "ends_token (CHR '';'')" "ends_token (CHR ''{'')" "ends_token (CHR ''}'')"
  by (simp_all add: ends_token_def)

lemma loop_blank:
  assumes "list_all is_blank ws"
  shows "parse_loop (prs stk tt n (ws @ s)) = parse_loop (prs stk tt n s)"
proof -
  have "parse_step (prs stk tt n (ws @ s)) = parse_step (prs stk tt n s)"
    using ParseToken_blank [OF assms, of s]
    by (cases "ParseToken s"; cases "fst (ParseToken s)") (simp_all add: parse_step_def)
  then show ?thesis
    by (simp add: parse_loop.simps [of "prs stk tt n (ws @ s)"] parse_loop.simps [of "prs stk tt n s"]
        split: sum.split turn.split)
qed

lemma loop_blank_Cons: "is_blank c \<Longrightarrow> parse_loop (prs stk tt n (c # s)) = parse_loop (prs stk tt n s)"
  using loop_blank [of "[c]"] by simp

lemma indent_blank: "list_all is_blank (indent d)"
  by (induction d) (simp_all add: indent_def is_blank_def)

lemma blank_simps [simp]: "is_blank (CHR '' '')" "is_blank LF"
  by (simp_all add: is_blank_def)

lemma loop_first_token:
  assumes "wf_token t" "ends_token c" "statement_may_start tt"
  shows "parse_loop (prs (f # stk) tt n (t @ c # r)) =
    parse_loop (prs ((f @ [Statement [t] None]) # stk) TOKEN_TYPE_NORMAL n (c # r))"
  using assms
  by (subst parse_loop.simps)
     (auto simp: parse_step_def ParseToken_wf statement_may_start_def on_normal_new)

lemma loop_next_token:
  assumes "wf_token t" "ends_token c"
  shows "parse_loop (prs ((f @ [Statement ts None]) # stk) TOKEN_TYPE_NORMAL n (t @ c # r)) =
    parse_loop (prs ((f @ [Statement (ts @ [t]) None]) # stk) TOKEN_TYPE_NORMAL n (c # r))"
  using assms
  by (subst parse_loop.simps) (simp add: parse_step_def ParseToken_wf on_normal_more push_token_def)

lemma loop_next_tokens:
  assumes "list_all wf_token ts" "ts \<noteq> []" "ends_token c"
  shows "parse_loop (prs ((f @ [Statement us None]) # stk) TOKEN_TYPE_NORMAL n
      (CHR '' '' # join_tokens ts @ c # r)) =
    parse_loop (prs ((f @ [Statement (us @ ts) None]) # stk) TOKEN_TYPE_NORMAL n (c # r))"
  using assms
proof (induction ts arbitrary: us rule: join_tokens.induct)
  case (2 t)
  then show ?case by (simp add: loop_blank_Cons loop_next_token)
next
  case (3 t t' ts)
  then show ?case by (simp add: loop_blank_Cons [of "CHR '' ''" _ _ _ "t @ _"] loop_next_token)
qed simp

lemma loop_tokens:
  assumes "list_all wf_token ts" "ts \<noteq> []" "ends_token c" "statement_may_start tt"
  shows "parse_loop (prs (f # stk) tt n (join_tokens ts @ c # r)) =
    parse_loop (prs ((f @ [Statement ts None]) # stk) TOKEN_TYPE_NORMAL n (c # r))"
proof (cases ts rule: join_tokens.cases)
  case (2 t)
  with assms show ?thesis by (simp add: loop_first_token)
next
  case (3 t t' ts')
  with assms show ?thesis
    using loop_next_tokens [of "t' # ts'" c f "[t]" stk n r] by (simp add: loop_first_token)
qed (use assms in simp)

lemma loop_semicolon:
  "parse_loop (prs stk TOKEN_TYPE_NORMAL n (CHR '';'' # r)) =
     parse_loop (prs stk TOKEN_TYPE_STATEMENT_END n r)"
  by (subst parse_loop.simps) (simp add: parse_step_def ParseToken_def)

lemma loop_open:
  "parse_loop (prs ((f @ [s]) # stk) TOKEN_TYPE_NORMAL n (CHR ''{'' # r)) =
     parse_loop (prs ([] # (f @ [set_child [] s]) # stk) TOKEN_TYPE_START_BLOCK (n + 1) r)"
  by (subst parse_loop.simps) (simp add: parse_step_def ParseToken_def on_start_block_snoc)

lemma loop_close:
  assumes "tt = TOKEN_TYPE_STATEMENT_END \<or> tt = TOKEN_TYPE_END_BLOCK" "0 \<le> n"
  shows "parse_loop (prs (b # (f @ [s]) # stk) tt (n + 1) (CHR ''}'' # r)) =
     parse_loop (prs ((f @ [set_child b s]) # stk) TOKEN_TYPE_END_BLOCK n r)"
  using assms
  by (subst parse_loop.simps) (auto simp: parse_step_def ParseToken_def on_end_block_snoc)

lemma loop_eof:
  assumes "tt = TOKEN_TYPE_STATEMENT_END \<or> tt = TOKEN_TYPE_END_BLOCK"
  shows "parse_loop (prs [c] tt 0 []) = Inr (True, [c])"
  using assms by (subst parse_loop.simps) (auto simp: parse_step_def ParseToken_def)

lemma loop_statements:
  assumes "\<And>s f tt r. s \<in> set c \<Longrightarrow> statement_may_start tt \<Longrightarrow>
      parse_loop (prs (f # stk) tt n (statement_ToString d s @ r)) =
      parse_loop (prs ((f @ [s]) # stk) (end_type s) n r)"
    and "statement_may_start tt"
  shows "parse_loop (prs (f # stk) tt n (concat (map (statement_ToString d) c) @ r)) =
     parse_loop (prs ((f @ c) # stk) (if c = [] then tt else end_type (last c)) n r)"
  using assms
proof (induction c arbitrary: f tt)
  case (Cons s c)
  have "parse_loop (prs (f # stk) tt n (statement_ToString d s @ concat (map (statement_ToString d) c) @ r)) =
      parse_loop (prs ((f @ [s]) # stk) (end_type s) n (concat (map (statement_ToString d) c) @ r))"
    using Cons.prems by simp
  also have "\<dots> = parse_loop (prs ((f @ s # c) # stk) (if c = [] then end_type s else end_type (last c)) n r)"
    using Cons.IH [of "end_type s" "f @ [s]"] Cons.prems(1) by simp
  finally show ?case by simp
qed simp

lemma end_type_cases: "end_type s = TOKEN_TYPE_STATEMENT_END \<or> end_type s = TOKEN_TYPE_END_BLOCK"
  by (simp add: end_type_def split: option.split)

lemma loop_statement:
  "complete s \<Longrightarrow> statement_may_start tt \<Longrightarrow> 0 \<le> n \<Longrightarrow>
     parse_loop (prs (f # stk) tt n (statement_ToString d s @ r)) =
     parse_loop (prs ((f @ [s]) # stk) (end_type s) n r)"
proof (induction d s arbitrary: f stk tt n r rule: statement_ToString.induct)
  case (1 d ts child)
  have ts: "list_all wf_token ts" "ts \<noteq> []" using "1.prems" by auto
  show ?case
  proof (cases child)
    case None
    have "parse_loop (prs (f # stk) tt n (statement_ToString d (Statement ts child) @ r)) =
        parse_loop (prs ((f @ [Statement ts None]) # stk) TOKEN_TYPE_STATEMENT_END n (LF # r))"
      using None ts "1.prems"(2) by (simp add: loop_blank indent_blank loop_tokens loop_semicolon)
    then show ?thesis using None by (simp add: loop_blank_Cons end_type_def)
  next
    case (Some c)
    define body where "body = concat (map (statement_ToString (Suc d)) c)"
    define st0 where "st0 = Statement ts (Some [])"
    have c: "c \<noteq> []" "\<forall>s\<in>set c. complete s" using "1.prems"(1) Some by (auto simp: list_all_iff)
    have "parse_loop (prs (f # stk) tt n (statement_ToString d (Statement ts child) @ r)) =
        parse_loop (prs ((f @ [Statement ts None]) # stk) TOKEN_TYPE_NORMAL n
          (CHR '' '' # CHR ''{'' # LF # body @ indent d @ CHR ''}'' # LF # r))"
      using Some ts "1.prems"(2) by (simp add: loop_blank indent_blank loop_tokens body_def)
    also have "\<dots> = parse_loop (prs ([] # (f @ [st0]) # stk) TOKEN_TYPE_START_BLOCK (n + 1)
          (body @ indent d @ CHR ''}'' # LF # r))"
      by (simp add: loop_blank_Cons loop_open set_child_def st0_def)
    also have "\<dots> = parse_loop (prs (c # (f @ [st0]) # stk) (end_type (last c)) (n + 1)
          (indent d @ CHR ''}'' # LF # r))"
      unfolding body_def
      using loop_statements [of c "(f @ [st0]) # stk" "n + 1" "Suc d" TOKEN_TYPE_START_BLOCK "[]"]
        "1.IH" Some c "1.prems"(3)
      by (simp add: statement_may_start_def)
    also have "\<dots> = parse_loop (prs ((f @ [Statement ts (Some c)]) # stk) TOKEN_TYPE_END_BLOCK n r)"
      using loop_close [OF end_type_cases, of n c f st0 stk "last c" "LF # r"] "1.prems"(3)
      by (simp add: loop_blank indent_blank loop_blank_Cons set_child_def st0_def)
    finally show ?thesis using Some by (simp add: end_type_def)
  qed
qed

lemma Parse_ToString:
  assumes "wf_config c" "c \<noteq> []"
  shows "Parse (config_ToString d c) [] = Inr (True, c)"
proof -
  have "parse_loop (prs [[]] TOKEN_TYPE_START 0 (concat (map (statement_ToString d) c) @ [])) =
      parse_loop (prs [c] (end_type (last c)) 0 [])"
    using loop_statements [of c "[]" 0 d TOKEN_TYPE_START "[]" "[]"] assms loop_statement
    by (simp add: statement_may_start_def wf_config_def list_all_iff)
  also have "\<dots> = Inr (True, [c])" by (rule loop_eof [OF end_type_cases])
  finally show ?thesis by (simp add: Parse_def config_ToString_def)
qed

text \<open>
  C6: printing a non-empty well-formed configuration, at any indentation, and parsing the text
  accepts it and gives the same configuration back.
\<close>

theorem Parse_print_roundtrip:
  assumes "wf_config c" "c \<noteq> []"
  shows "Parse (config_ToString d c) [] = Inr (True, c)"
  using assms by (rule Parse_ToString)

definition sample_config :: config where
  "sample_config =
     [Statement [''port'', ''8080''] None,
      Statement [''router''] (Some
        [Statement [''handler'', ''echo''] (Some [Statement [''location'', ''/echo''] None]),
         Statement [''name'', DQUOTE # ''a b;'' @ [DQUOTE]] None])]"

lemma quoted_token_code [code]:
  "quoted_token q t \<longleftrightarrow> 2 \<le> length t \<and> hd t = q \<and> last t = q \<and> q \<notin> set (butlast (tl t))"
proof
  assume "quoted_token q t"
  then show "2 \<le> length t \<and> hd t = q \<and> last t = q \<and> q \<notin> set (butlast (tl t))"
    by (auto simp: quoted_token_def)
next
  assume t: "2 \<le> length t \<and> hd t = q \<and> last t = q \<and> q \<notin> set (butlast (tl t))"
  then have "t = hd t # tl t" "tl t \<noteq> []" by (cases t; auto)+
  then have "t = q # butlast (tl t) @ [q]"
    using t by (metis append_butlast_last_id last_tl)
  with t show "quoted_token q t" unfolding quoted_token_def by blast
qed

lemma sample_config_wf: "wf_config sample_config \<and> sample_config \<noteq> []"
  by code_simp

theorem Parse_print_roundtrip_witness:
  "Parse (config_ToString 0 sample_config) [] = Inr (True, sample_config)"
  using Parse_print_roundtrip [of sample_config 0] sample_config_wf by simp

text \<open>
  C25: whatever text the parser accepts, the configuration it builds is not empty, each of its
  statements (at every depth) has well-formed tokens and no block of it is empty; and parsing its
  printed form gives the same configuration again.
\<close>

theorem Parse_accepts:
  assumes "Parse text [] = Inr (True, c)"
  shows "c \<noteq> [] \<and> wf_config c \<and> Parse (config_ToString 0 c) [] = Inr (True, c)"
  using Parse_accepts_wf [OF assms] Parse_ToString by blast

definition sample_text :: string where
  "sample_text = ''a b; # note'' @ [LF] @ ''c { d '' @ [DQUOTE] @ ''x;y'' @ [DQUOTE] @ ''; }''"

definition sample_parsed :: config where
  "sample_parsed = [Statement [''a'', ''b''] None,
     Statement [''c''] (Some [Statement [''d'', DQUOTE # ''x;y'' @ [DQUOTE]] None])]"

lemma sample_text_parsed: "Parse sample_text [] = Inr (True, sample_parsed)"
  by code_simp

theorem Parse_accepts_witness:
  "wf_config sample_parsed \<and> Parse (config_ToString 0 sample_parsed) [] = Inr (True, sample_parsed)"
  using Parse_accepts [OF sample_text_parsed] by simp

end
