(* ===== verification/Config_Statements.thy ===== *)
theory Config_Statements
  imports Config_Roundtrip
begin

text \<open>
  \<open>NginxConfig::ParseStatements\<close> and the getters of \<open>NginxConfig\<close>: the port, the root and the
  thread count of the server, scanned from the top-level statements. \<open>std::stoi\<close> may throw, which
  the scan catches. The thread count is an \<open>unsigned int\<close>, so the \<open>int\<close> that \<open>std::stoi\<close> returns
  is converted modulo \<open>2^32\<close>. \<open>None\<close> in \<open>port\<close> is the uninitialised member.

  The lemmas show what the scan guarantees when it succeeds, which value a configuration with a
  single port statement yields, and what a negative thread count becomes.
\<close>

record NginxConfig =
  statements :: config
  port :: "int option"
  threadCount :: "32 word"
  root :: string

definition MAX_PORT :: int where "MAX_PORT = 65535"

text \<open>The members and the local variables the loops update.\<close>

record scan =
  member_port :: "int option"
  member_threads :: "32 word"
  member_root :: string
  local_root :: string
  found_port :: bool
  local_threads :: "32 word"
  prev_token :: string

definition scan_token :: "scan \<Rightarrow> string \<Rightarrow> scan" where
  "scan_token s token =
     (if prev_token s = ''port'' \<and> \<not> found_port s then
        (case stoi token of
           Inl _ \<Rightarrow> s
         | Inr v \<Rightarrow>
             if 0 < v \<and> v \<le> MAX_PORT
             then s\<lparr>member_port := Some v, found_port := True, prev_token := token\<rparr>
             else s)
      else if prev_token s = ''root'' then
        (let r = (if token = ''.'' then '''' else token)
         in s\<lparr>local_root := r, member_root := r, prev_token := token\<rparr>)
      else if prev_token s = ''threadCount'' then
        (case stoi token of
           Inl _ \<Rightarrow> s
         | Inr v \<Rightarrow>
             let threads = (word_of_int v :: 32 word)
             in if threads > 0
                then s\<lparr>local_threads := threads, member_threads := threads, prev_token := token\<rparr>
                else s\<lparr>local_threads := 10\<rparr>)
      else s\<lparr>prev_token := token\<rparr>)"

definition scan_statement :: "scan \<Rightarrow> config_statement \<Rightarrow> scan" where
  "scan_statement s st = foldl scan_token (s\<lparr>prev_token := ''''\<rparr>) (tokens st)"

definition ParseStatements :: "NginxConfig \<Rightarrow> bool \<times> NginxConfig" where
  "ParseStatements c =
     (let s = foldl scan_statement
                \<lparr>member_port = port c, member_threads = threadCount c, member_root = root c,
                 local_root = '''', found_port = False, local_threads = 10, prev_token = ''''\<rparr>
                (statements c)
      in (found_port s,
          c\<lparr>port := member_port s, threadCount := local_threads s, root := local_root s\<rparr>))"

text \<open>Reading the port before it is set is undefined behaviour.\<close>

definition GetPort :: "NginxConfig \<Rightarrow> int result" where
  "GetPort c = (case port c of None \<Rightarrow> Inl Undefined | Some p \<Rightarrow> Inr p)"

definition GetServerRoot :: "NginxConfig \<Rightarrow> string" where
  "GetServerRoot c = root c"

definition GetThreadCount :: "NginxConfig \<Rightarrow> 32 word" where
  "GetThreadCount c = threadCount c"

definition new_config :: "config \<Rightarrow> NginxConfig" where
  "new_config c = \<lparr>statements = c, port = None, threadCount = 0, root = ''''\<rparr>"

subsection \<open>The invariant of the scan\<close>

definition scan_inv :: "scan \<Rightarrow> bool" where
  "scan_inv s \<longleftrightarrow> local_threads s \<noteq> 0 \<and> local_root s \<noteq> ''.'' \<and>
     (found_port s \<longrightarrow> (\<exists>v. member_port s = Some v \<and> 0 < v \<and> v \<le> MAX_PORT))"

lemma scan_token_inv: "scan_inv s \<Longrightarrow> scan_inv (scan_token s t)"
  by (auto simp: scan_token_def scan_inv_def Let_def word_gt_0 split: sum.splits)

lemma foldl_inv: "(\<And>s x. P s \<Longrightarrow> P (f s x)) \<Longrightarrow> P s \<Longrightarrow> P (foldl f s xs)"
  by (induction xs arbitrary: s) auto

lemma scan_statement_inv: "scan_inv s \<Longrightarrow> scan_inv (scan_statement s st)"
  unfolding scan_statement_def
  by (rule foldl_inv [of scan_inv]) (simp_all add: scan_token_inv, simp add: scan_inv_def)

lemma ParseStatements_inv:
  assumes "ParseStatements c = (ok, c')"
  shows "(ok \<longrightarrow> (\<exists>p. GetPort c' = Inr p \<and> 1 \<le> p \<and> p \<le> 65535)) \<and>
    0 < GetThreadCount c' \<and> GetServerRoot c' \<noteq> ''.'' \<and> statements c' = statements c"
proof -
  define s where "s = foldl scan_statement
      \<lparr>member_port = port c, member_threads = threadCount c, member_root = root c,
       local_root = '''', found_port = False, local_threads = 10, prev_token = ''''\<rparr> (statements c)"
  have "scan_inv s"
    unfolding s_def by (rule foldl_inv [of scan_inv]) (simp_all add: scan_statement_inv, simp add: scan_inv_def)
  moreover have "ok = found_port s"
    "c' = c\<lparr>port := member_port s, threadCount := local_threads s, root := local_root s\<rparr>"
    using assms unfolding ParseStatements_def s_def by (simp_all add: Let_def)
  ultimately show ?thesis
    by (auto simp: scan_inv_def GetPort_def GetThreadCount_def GetServerRoot_def MAX_PORT_def word_gt_0)
qed

text \<open>
  C35: when \<open>ParseStatements\<close> returns true the port has been set to a value from 1 to 65535; in
  every case the thread count it leaves is positive, the root is not \<open>.\<close> and the statements are
  untouched.
\<close>

theorem ParseStatements_safe:
  assumes "ParseStatements c = (ok, c')"
  shows "(ok \<longrightarrow> (\<exists>p. GetPort c' = Inr p \<and> 1 \<le> p \<and> p \<le> 65535)) \<and>
    0 < GetThreadCount c' \<and> GetServerRoot c' \<noteq> ''.'' \<and> statements c' = statements c"
  using assms by (rule ParseStatements_inv)

theorem ParseStatements_safe_witness:
  "fst (ParseStatements (new_config [Statement [''port'', ''8080''] None])) \<and>
   0 < GetThreadCount (snd (ParseStatements (new_config [Statement [''port'', ''8080''] None])))"
proof -
  let ?c = "new_config [Statement [''port'', ''8080''] None]"
  have "fst (ParseStatements ?c)" by code_simp
  then show ?thesis
    using ParseStatements_safe [OF prod.collapse [symmetric], of ?c] by blast
qed

subsection \<open>Which port is found\<close>

lemma scan_token_found: "found_port s \<Longrightarrow> found_port (scan_token s t) \<and> member_port (scan_token s t) = member_port s"
  by (auto simp: scan_token_def Let_def split: sum.splits)

lemma scan_tokens_found:
  "found_port s \<Longrightarrow> found_port (foldl scan_token s ts) \<and> member_port (foldl scan_token s ts) = member_port s"
  by (induction ts arbitrary: s) (auto simp: scan_token_found)

lemma scan_statements_found:
  "found_port s \<Longrightarrow> found_port (foldl scan_statement s sts) \<and>
     member_port (foldl scan_statement s sts) = member_port s"
proof (induction sts arbitrary: s)
  case (Cons st sts)
  have "found_port (scan_statement s st) \<and> member_port (scan_statement s st) = member_port s"
    using scan_tokens_found [of "s\<lparr>prev_token := ''''\<rparr>" "tokens st"] Cons.prems
    by (simp add: scan_statement_def)
  with Cons.IH show ?case by auto
qed simp

lemma scan_token_no_port:
  assumes "prev_token s \<noteq> ''port''" "t \<noteq> ''port''"
  shows "prev_token (scan_token s t) \<noteq> ''port'' \<and> found_port (scan_token s t) = found_port s"
  using assms by (auto simp: scan_token_def Let_def split: sum.splits)

lemma scan_tokens_no_port:
  "prev_token s \<noteq> ''port'' \<Longrightarrow> ''port'' \<notin> set ts \<Longrightarrow>
     found_port (foldl scan_token s ts) = found_port s"
  by (induction ts arbitrary: s) (auto simp: scan_token_no_port)

lemma scan_statements_no_port:
  "\<forall>st\<in>set sts. ''port'' \<notin> set (tokens st) \<Longrightarrow>
     found_port (foldl scan_statement s sts) = found_port s"
proof (induction sts arbitrary: s)
  case (Cons st sts)
  have "found_port (scan_statement s st) = found_port s"
    using scan_tokens_no_port [of "s\<lparr>prev_token := ''''\<rparr>" "tokens st"] Cons.prems
    by (simp add: scan_statement_def)
  with Cons show ?case by simp
qed simp

lemma scan_port_statement:
  assumes "\<not> found_port s" "1 \<le> n" "n \<le> 65535"
  shows "found_port (scan_statement s (Statement [''port'', to_dec n] child)) \<and>
    member_port (scan_statement s (Statement [''port'', to_dec n] child)) = Some (int n)"
  using assms by (simp add: scan_statement_def scan_token_def stoi_to_dec int_max_def MAX_PORT_def)

text \<open>
  If no earlier top-level statement contains the word \<open>port\<close>, a statement \<open>port n;\<close> with
  \<open>1 \<le> n \<le> 65535\<close> makes \<open>ParseStatements\<close> succeed with port \<open>n\<close>, whatever follows it.
\<close>

theorem ParseStatements_port:
  assumes "\<forall>st\<in>set pre. ''port'' \<notin> set (tokens st)" "1 \<le> n" "n \<le> 65535"
  shows "\<exists>c. ParseStatements (new_config (pre @ Statement [''port'', to_dec n] child # post)) = (True, c) \<and>
    GetPort c = Inr (int n)"
proof -
  define s0 where "s0 = \<lparr>member_port = None :: int option, member_threads = 0 :: 32 word,
     member_root = '''', local_root = '''', found_port = False, local_threads = 10 :: 32 word, prev_token = ''''\<rparr>"
  define s1 where "s1 = foldl scan_statement s0 pre"
  define s2 where "s2 = scan_statement s1 (Statement [''port'', to_dec n] child)"
  have "found_port s1 = False"
    using scan_statements_no_port [OF assms(1), of s0] by (simp add: s1_def s0_def)
  then have "found_port s2 \<and> member_port s2 = Some (int n)"
    unfolding s2_def using scan_port_statement assms(2,3) by simp
  then have "found_port (foldl scan_statement s2 post) \<and> member_port (foldl scan_statement s2 post) = Some (int n)"
    using scan_statements_found by simp
  then show ?thesis
    by (simp add: ParseStatements_def new_config_def Let_def GetPort_def s2_def s1_def s0_def)
qed

theorem ParseStatements_port_witness:
  "\<exists>c. ParseStatements (new_config ([Statement [''root'', ''.''] None] @
        Statement [''port'', to_dec 8080] None # [Statement [''port'', ''80''] None])) = (True, c) \<and>
     GetPort c = Inr (int 8080)"
  by (rule ParseStatements_port) simp_all

text \<open>
  A negative thread count is accepted: a statement \<open>threadCount -n;\<close> leaves
  \<open>2^32 - n\<close> threads, because the check for a positive number is made after the conversion to
  unsigned.
\<close>

theorem negative_threadCount:
  assumes "1 \<le> n" "int n \<le> 2 ^ 31"
  shows "uint (GetThreadCount (snd (ParseStatements
      (new_config [Statement [''threadCount'', CHR ''-'' # to_dec n] None])))) = 2 ^ 32 - int n"
proof -
  have stoi: "stoi (CHR ''-'' # to_dec n) = Inr (- int n)"
    using assms(2) by (rule stoi_minus)
  have u: "uint (word_of_int (- int n) :: 32 word) = 2 ^ 32 - int n"
  proof -
    have "uint (word_of_int (- int n) :: 32 word) = (- int n) mod 2 ^ 32"
      unfolding uint_word_of_int by simp
    also have "\<dots> = (- int n + 2 ^ 32) mod 2 ^ 32" by (rule mod_add_self2 [symmetric])
    also have "\<dots> = 2 ^ 32 - int n" using assms by (subst mod_pos_pos_trivial) simp_all
    finally show ?thesis .
  qed
  then have "(word_of_int (- int n) :: 32 word) > 0"
    using assms by (simp add: word_gt_0 word_uint_eq_iff)
  then show ?thesis
    using u by (simp add: ParseStatements_def new_config_def scan_statement_def scan_token_def stoi
        GetThreadCount_def Let_def)
qed

theorem negative_threadCount_witness:
  "uint (GetThreadCount (snd (ParseStatements
      (new_config [Statement [''threadCount'', CHR ''-'' # to_dec 1] None])))) = 2 ^ 32 - int 1"
  by (rule negative_threadCount) simp_all

end
