(* ===== verification/Regex.thy ===== *)
theory Regex
  imports Prelude
begin

text \<open>
  The part of \<open>std::regex\<close> (ECMAScript grammar, C locale) that the program uses: literals,
  character classes, greedy and lazy repetition of a class, counted repetition, sequence, capture
  groups and the two anchors.

  \<open>rx_all r b s\<close> lists every way in which \<open>r\<close> matches a prefix of \<open>s\<close>, in the order in which
  the backtracking matcher tries them, so its head is the match the library reports; \<open>b\<close> says
  whether \<open>s\<close> starts at the beginning of the input, where \<open>^\<close> matches. \<open>regex_search\<close> takes the
  leftmost position that matches, \<open>regex_iterate\<close> is \<open>std::sregex_iterator\<close>.

  The relation \<open>rx_rel\<close> is the declarative meaning of an expression; \<open>rx_all_iff\<close> says that the
  matcher finds exactly those matches.
\<close>

datatype rx =
    RLit string
  | RClass "char \<Rightarrow> bool"
  | RRep bool nat "char \<Rightarrow> bool"  \<comment> \<open>greedy?, at least, class\<close>
  | RTimes nat "char \<Rightarrow> bool"
  | RSeq rx rx
  | RGroup rx
  | RBol
  | REol

fun rx_seq :: "rx list \<Rightarrow> rx" where
  "rx_seq [] = RLit []"
| "rx_seq [r] = r"
| "rx_seq (r # rs) = RSeq r (rx_seq rs)"

primrec rx_groups :: "rx \<Rightarrow> nat" where
  "rx_groups (RLit l) = 0"
| "rx_groups (RClass p) = 0"
| "rx_groups (RRep g n p) = 0"
| "rx_groups (RTimes n p) = 0"
| "rx_groups (RSeq r1 r2) = rx_groups r1 + rx_groups r2"
| "rx_groups (RGroup r) = Suc (rx_groups r)"
| "rx_groups RBol = 0"
| "rx_groups REol = 0"

text \<open>A match: the text matched, what follows it, and the text of the groups in order.\<close>

type_synonym rx_match = "string \<times> string \<times> string list"

definition rep_splits :: "(char \<Rightarrow> bool) \<Rightarrow> string \<Rightarrow> (string \<times> string) list" where
  "rep_splits p s = map (\<lambda>k. (take k s, drop k s)) (rev [0..<Suc (length (takeWhile p s))])"

primrec rx_all :: "rx \<Rightarrow> bool \<Rightarrow> string \<Rightarrow> rx_match list" where
  "rx_all (RLit l) b s = (if take (length l) s = l then [(l, drop (length l) s, [])] else [])"
| "rx_all (RClass p) b s =
     (case s of [] \<Rightarrow> [] | c # cs \<Rightarrow> if p c then [([c], cs, [])] else [])"
| "rx_all (RRep g n p) b s =
     map (\<lambda>(x, y). (x, y, []))
       (filter (\<lambda>(x, y). n \<le> length x) (if g then rep_splits p s else rev (rep_splits p s)))"
| "rx_all (RTimes n p) b s =
     (if n \<le> length (takeWhile p s) then [(take n s, drop n s, [])] else [])"
| "rx_all (RSeq r1 r2) b s =
     concat (map (\<lambda>(w1, y, c1).
         map (\<lambda>(w2, z, c2). (w1 @ w2, z, c1 @ c2)) (rx_all r2 (b \<and> w1 = []) y)) (rx_all r1 b s))"
| "rx_all (RGroup r) b s = map (\<lambda>(w, y, c). (w, y, w # c)) (rx_all r b s)"
| "rx_all RBol b s = (if b then [([], s, [])] else [])"
| "rx_all REol b s = (if s = [] then [([], [], [])] else [])"

fun rx_search :: "rx \<Rightarrow> bool \<Rightarrow> string \<Rightarrow> (string \<times> rx_match) option" where
  "rx_search r b s =
     (case rx_all r b s of
        m # _ \<Rightarrow> Some ([], m)
      | [] \<Rightarrow> (case s of
            [] \<Rightarrow> None
          | c # cs \<Rightarrow> map_option (\<lambda>(pre, m). (c # pre, m)) (rx_search r False cs)))"

declare rx_search.simps [simp del]

type_synonym smatch = "(string \<times> rx_match) option"

definition regex_search :: "rx \<Rightarrow> string \<Rightarrow> smatch" where
  "regex_search r s = rx_search r True s"

text \<open>\<open>std::smatch::size\<close> and \<open>std::smatch::str\<close>.\<close>

definition m_size :: "rx \<Rightarrow> smatch \<Rightarrow> nat" where
  "m_size r m = (case m of None \<Rightarrow> 0 | Some _ \<Rightarrow> Suc (rx_groups r))"

definition m_str :: "smatch \<Rightarrow> nat \<Rightarrow> string" where
  "m_str m n = (case m of
       None \<Rightarrow> []
     | Some (pre, w, rest, caps) \<Rightarrow>
         if n = 0 then w else if n \<le> length caps then caps ! (n - 1) else [])"

subsection \<open>The declarative meaning\<close>

inductive rx_rel :: "rx \<Rightarrow> bool \<Rightarrow> string \<Rightarrow> string \<Rightarrow> string list \<Rightarrow> bool" where
  lit: "rx_rel (RLit l) b l rest []"
| cls: "p c \<Longrightarrow> rx_rel (RClass p) b [c] rest []"
| rep: "\<forall>c\<in>set w. p c \<Longrightarrow> n \<le> length w \<Longrightarrow> rx_rel (RRep g n p) b w rest []"
| times: "\<forall>c\<in>set w. p c \<Longrightarrow> length w = n \<Longrightarrow> rx_rel (RTimes n p) b w rest []"
| seq: "rx_rel r1 b w1 (w2 @ rest) c1 \<Longrightarrow> rx_rel r2 (b \<and> w1 = []) w2 rest c2 \<Longrightarrow>
    rx_rel (RSeq r1 r2) b (w1 @ w2) rest (c1 @ c2)"
| grp: "rx_rel r b w rest c \<Longrightarrow> rx_rel (RGroup r) b w rest (w # c)"
| bol: "rx_rel RBol True [] rest []"
| eol: "rx_rel REol b [] [] []"

inductive_simps rx_rel_simps:
  "rx_rel (RLit l) b w rest caps"
  "rx_rel (RClass p) b w rest caps"
  "rx_rel (RRep g n p) b w rest caps"
  "rx_rel (RTimes n p) b w rest caps"
  "rx_rel (RSeq r1 r2) b w rest caps"
  "rx_rel (RGroup r) b w rest caps"
  "rx_rel RBol b w rest caps"
  "rx_rel REol b w rest caps"

text \<open>The elements of a sequence, one at a time.\<close>

lemma rx_rel_seq:
  "rx_rel (RSeq (RLit l) r) b w rest caps \<longleftrightarrow>
     (\<exists>w2. w = l @ w2 \<and> rx_rel r (b \<and> l = []) w2 rest caps)"
  "rx_rel (RSeq (RClass p) r) b w rest caps \<longleftrightarrow>
     (\<exists>c w2. w = c # w2 \<and> p c \<and> rx_rel r False w2 rest caps)"
  "rx_rel (RSeq RBol r) b w rest caps \<longleftrightarrow> b \<and> rx_rel r b w rest caps"
  "rx_rel (RSeq (RGroup (RRep g n p)) r) b w rest caps \<longleftrightarrow>
     (\<exists>w1 w2 c2. w = w1 @ w2 \<and> caps = w1 # c2 \<and> (\<forall>c\<in>set w1. p c) \<and> n \<le> length w1 \<and>
        rx_rel r (b \<and> w1 = []) w2 rest c2)"
proof -
  show "rx_rel (RSeq (RClass p) r) b w rest caps \<longleftrightarrow>
      (\<exists>c w2. w = c # w2 \<and> p c \<and> rx_rel r False w2 rest caps)"
  proof
    assume "\<exists>c w2. w = c # w2 \<and> p c \<and> rx_rel r False w2 rest caps"
    then obtain c w2 where w: "w = [c] @ w2" and "p c" "rx_rel r (b \<and> [c] = []) w2 rest caps" by auto
    then have "rx_rel (RSeq (RClass p) r) b ([c] @ w2) rest ([] @ caps)"
      by (intro rx_rel.seq rx_rel.cls)
    then show "rx_rel (RSeq (RClass p) r) b w rest caps" by (simp add: w)
  qed (auto simp: rx_rel_simps)
qed (auto simp: rx_rel_simps)

lemma rx_rel_caps_length: "rx_rel r b w rest caps \<Longrightarrow> length caps = rx_groups r"
  by (induction rule: rx_rel.induct) auto

lemma all_take_iff: "k \<le> length (takeWhile p s) \<Longrightarrow> c \<in> set (take k s) \<Longrightarrow> p c"
  by (metis in_set_takeD set_takeWhileD takeWhile_eq_take min.absorb1 take_take)

lemma length_le_takeWhile: "\<forall>c\<in>set w. p c \<Longrightarrow> length w \<le> length (takeWhile p (w @ r))"
  by (induction w) auto

lemma set_rep_splits:
  "(x, y) \<in> set (rep_splits p s) \<longleftrightarrow> s = x @ y \<and> (\<forall>c\<in>set x. p c)" (is "?L \<longleftrightarrow> ?R")
proof
  assume ?L
  then obtain k where "k \<le> length (takeWhile p s)" "x = take k s" "y = drop k s"
    unfolding rep_splits_def by (auto simp del: upt_Suc simp: less_Suc_eq_le)
  then show ?R using all_take_iff by auto
next
  assume R: ?R
  then have "length x \<le> length (takeWhile p s)" using length_le_takeWhile by blast
  moreover have "x = take (length x) s" "y = drop (length x) s" using R by auto
  ultimately show ?L
    by (auto simp: rep_splits_def image_iff intro!: bexI [of _ "length x"])
qed

theorem rx_all_iff:
  "(w, rest, caps) \<in> set (rx_all r b s) \<longleftrightarrow> s = w @ rest \<and> rx_rel r b w rest caps"
proof (induction r arbitrary: b s w rest caps)
  case (RLit l)
  show ?case
    by (auto simp: rx_rel_simps) (metis append_take_drop_id)
next
  case (RClass p)
  show ?case by (cases s) (auto simp: rx_rel_simps)
next
  case (RRep g n p)
  show ?case by (auto simp: rx_rel_simps set_rep_splits)
next
  case (RTimes n p)
  show ?case
  proof (cases "n \<le> length (takeWhile p s)")
    case True
    moreover have "n \<le> length s" using True length_takeWhile_le le_trans by blast
    ultimately show ?thesis
      by (auto simp: rx_rel_simps dest: all_take_iff)
  next
    case False
    then show ?thesis
      by (auto simp: rx_rel_simps dest: length_le_takeWhile)
  qed
next
  case (RSeq r1 r2)
  have "(w, rest, caps) \<in> set (rx_all (RSeq r1 r2) b s) \<longleftrightarrow>
      (\<exists>w1 y c1 w2 c2. (w1, y, c1) \<in> set (rx_all r1 b s) \<and>
         (w2, rest, c2) \<in> set (rx_all r2 (b \<and> w1 = []) y) \<and> w = w1 @ w2 \<and> caps = c1 @ c2)"
    unfolding rx_all.simps set_concat set_map Union_iff bex_simps image_iff
    by (simp add: Bex_def split_paired_Ex image_iff)
  also have "\<dots> \<longleftrightarrow> s = w @ rest \<and> rx_rel (RSeq r1 r2) b w rest caps"
    unfolding RSeq rx_rel_simps
  proof safe
    fix w1 c1 w2 c2
    assume "rx_rel r1 b w1 (w2 @ rest) c1" "rx_rel r2 (b \<and> w1 = []) w2 rest c2"
    then show "\<exists>w1' y c1' w2' c2'. ((w1 @ w2) @ rest = w1' @ y \<and> rx_rel r1 b w1' y c1') \<and>
        (y = w2' @ rest \<and> rx_rel r2 (b \<and> w1' = []) w2' rest c2') \<and>
        w1 @ w2 = w1' @ w2' \<and> c1 @ c2 = c1' @ c2'"
      by (intro exI [of _ w1] exI [of _ "w2 @ rest"] exI [of _ c1] exI [of _ w2] exI [of _ c2]) simp
  qed auto
  finally show ?case .
next
  case (RGroup r)
  show ?case by (auto simp: rx_rel_simps RGroup image_iff split: prod.splits)
qed (auto simp: rx_rel_simps)

lemma rx_all_hd:
  "rx_all r b s = (w, rest, caps) # ms \<Longrightarrow> s = w @ rest \<and> rx_rel r b w rest caps"
  using rx_all_iff [of w rest caps r b s] by simp

lemma rx_all_Nil_iff: "rx_all r b s = [] \<longleftrightarrow> \<not> (\<exists>w rest caps. s = w @ rest \<and> rx_rel r b w rest caps)"
proof -
  have "rx_all r b s = [] \<longleftrightarrow> (\<forall>m. m \<notin> set (rx_all r b s))"
    by (metis all_not_in_conv set_empty)
  then show ?thesis by (metis rx_all_iff prod_cases3)
qed

text \<open>If all matches at a position agree, the matcher reports that one.\<close>

lemma rx_all_unique:
  assumes "rx_rel r b w rest caps"
    and "\<And>w' rest' caps'. w @ rest = w' @ rest' \<Longrightarrow> rx_rel r b w' rest' caps' \<Longrightarrow>
           (w', rest', caps') = (w, rest, caps)"
  shows "\<exists>ms. rx_all r b (w @ rest) = (w, rest, caps) # ms"
proof (cases "rx_all r b (w @ rest)")
  case Nil
  then show ?thesis using assms(1) rx_all_Nil_iff by blast
next
  case (Cons m ms)
  obtain w' rest' caps' where m: "m = (w', rest', caps')" by (cases m)
  have "w @ rest = w' @ rest'" "rx_rel r b w' rest' caps'"
    using rx_all_hd [OF Cons [unfolded m]] by auto
  then have "m = (w, rest, caps)" using assms(2) m by simp
  with Cons show ?thesis by simp
qed

subsection \<open>Searching\<close>

lemma all_append_Cons:
  "(\<forall>pre s'. c # cs = pre @ s' \<longrightarrow> P pre s') \<longleftrightarrow>
     P [] (c # cs) \<and> (\<forall>pre s'. cs = pre @ s' \<longrightarrow> P (c # pre) s')"
  by (auto simp: Cons_eq_append_conv)

lemma rx_search_None_iff:
  "rx_search r b s = None \<longleftrightarrow> (\<forall>pre s'. s = pre @ s' \<longrightarrow> rx_all r (b \<and> pre = []) s' = [])"
proof (induction s arbitrary: b)
  case Nil
  show ?case by (subst rx_search.simps) (auto split: list.splits)
next
  case (Cons c cs)
  have "rx_search r b (c # cs) = None \<longleftrightarrow> rx_all r b (c # cs) = [] \<and> rx_search r False cs = None"
    by (subst rx_search.simps) (auto split: list.splits)
  also have "\<dots> \<longleftrightarrow> rx_all r b (c # cs) = [] \<and>
      (\<forall>pre s'. cs = pre @ s' \<longrightarrow> rx_all r (b \<and> c # pre = []) s' = [])"
    by (simp add: Cons.IH)
  also have "\<dots> \<longleftrightarrow> (\<forall>pre s'. c # cs = pre @ s' \<longrightarrow> rx_all r (b \<and> pre = []) s' = [])"
    by (auto simp: all_append_Cons)
  finally show ?case .
qed

lemma rx_search_SomeD:
  assumes "rx_search r b s = Some (pre, w, rest, caps)"
  shows "s = pre @ w @ rest \<and> rx_rel r (b \<and> pre = []) w rest caps
    \<and> hd (rx_all r (b \<and> pre = []) (w @ rest)) = (w, rest, caps)
    \<and> (\<forall>p q. pre = p @ q \<longrightarrow> q \<noteq> [] \<longrightarrow> rx_all r (b \<and> p = []) (q @ w @ rest) = [])"
  using assms
proof (induction s arbitrary: b pre)
  case Nil
  then have "\<exists>ms. rx_all r b [] = (w, rest, caps) # ms" "pre = []"
    by (subst (asm) rx_search.simps, simp split: list.splits)+
  then show ?case using rx_all_hd by fastforce
next
  case (Cons c cs)
  show ?case
  proof (cases "rx_all r b (c # cs)")
    case Nil
    with Cons.prems obtain pre' where pre: "pre = c # pre'"
      and s: "rx_search r False cs = Some (pre', w, rest, caps)"
      by (subst (asm) rx_search.simps) auto
    have IH: "cs = pre' @ w @ rest" "rx_rel r False w rest caps"
      "hd (rx_all r False (w @ rest)) = (w, rest, caps)"
      "\<forall>p q. pre' = p @ q \<longrightarrow> q \<noteq> [] \<longrightarrow> rx_all r False (q @ w @ rest) = []"
      using Cons.IH [OF s] by auto
    have "rx_all r (b \<and> p = []) (q @ w @ rest) = []" if "pre = p @ q" "q \<noteq> []" for p q
      using that IH Nil pre by (cases p) auto
    with IH pre show ?thesis by simp
  next
    case (Cons m ms)
    with Cons.prems have "m = (w, rest, caps)" "pre = []"
      by (subst (asm) rx_search.simps, simp)+
    with Cons show ?thesis using rx_all_hd by fastforce
  qed
qed

lemma rx_search_at:
  "rx_all r b s = m # ms \<Longrightarrow> rx_search r b s = Some ([], m)"
  by (subst rx_search.simps) simp

lemma rx_search_skip:
  "rx_all r b (c # cs) = [] \<Longrightarrow>
     rx_search r b (c # cs) = map_option (\<lambda>(pre, m). (c # pre, m)) (rx_search r False cs)"
  by (subst rx_search.simps) simp

lemma rx_search_skip_many:
  assumes "\<And>p q. pre = p @ q \<Longrightarrow> q \<noteq> [] \<Longrightarrow> rx_all r (b \<and> p = []) (q @ s) = []"
  shows "rx_search r b (pre @ s) =
    map_option (\<lambda>(p, m). (pre @ p, m)) (rx_search r (b \<and> pre = []) s)"
  using assms
proof (induction pre arbitrary: b)
  case Nil
  show ?case by (cases "rx_search r b s") auto
next
  case (Cons c pre)
  have 1: "rx_all r b (c # pre @ s) = []" using Cons.prems [of "[]" "c # pre"] by simp
  have "rx_all r (False \<and> p = []) (q @ s) = []" if "pre = p @ q" "q \<noteq> []" for p q
    using Cons.prems [of "c # p" q] that by simp
  then have "rx_search r False (pre @ s) =
      map_option (\<lambda>(p, m). (pre @ p, m)) (rx_search r False s)"
    using Cons.IH [of False] by simp
  then show ?case
    using 1 by (simp add: rx_search_skip option.map_comp comp_def case_prod_unfold)
qed

text \<open>An expression that starts with \<open>^\<close> matches at the beginning or not at all.\<close>

lemma rx_all_Bol_False [simp]: "rx_all (RSeq RBol r) False s = []"
  by simp

lemma rx_search_Bol_False [simp]: "rx_search (RSeq RBol r) False s = None"
  by (simp add: rx_search_None_iff)

lemma regex_search_Bol_None: "rx_all (RSeq RBol r) True s = [] \<Longrightarrow> regex_search (RSeq RBol r) s = None"
  unfolding regex_search_def rx_search_None_iff
proof (intro allI impI)
  fix pre s'
  assume "rx_all (RSeq RBol r) True s = []" "s = pre @ s'"
  then show "rx_all (RSeq RBol r) (True \<and> pre = []) s' = []"
    by (cases pre) (simp_all del: rx_all.simps)
qed

lemma m_size_None [simp]: "m_size r None = 0"
  by (simp add: m_size_def)

lemma m_size_Some [simp]: "m_size r (Some m) = Suc (rx_groups r)"
  by (simp add: m_size_def)

lemma m_str_simps [simp]:
  "m_str (Some (pre, w, rest, c1 # cs)) (Suc 0) = c1"
  "m_str (Some (pre, w, rest, c1 # c2 # cs)) 2 = c2"
  "m_str (Some (pre, w, rest, c1 # c2 # c3 # cs)) 3 = c3"
  by (simp_all add: m_str_def)

subsection \<open>Iterating over the matches\<close>

text \<open>
  \<open>std::sregex_iterator\<close>: the next search starts where the last match ended, and \<open>^\<close> no longer
  matches there. No expression the program iterates over matches the empty text
  (\<open>rx_progress\<close>), so the library's rule for empty matches is not needed; the iteration would stop
  at one.
\<close>

function regex_iterate :: "rx \<Rightarrow> bool \<Rightarrow> string \<Rightarrow> string list list" where
  "regex_iterate r b s =
     (case rx_search r b s of
        None \<Rightarrow> []
      | Some (pre, w, rest, caps) \<Rightarrow>
          if w = [] then [caps] else caps # regex_iterate r False rest)"
  by pat_completeness auto
termination
proof (relation "measure (\<lambda>(r, b, s). length s)")
  fix r b s x pre y w z rest caps
  assume "rx_search r b s = Some x" "(pre, y) = x" "(w, z) = y" "(rest, caps) = z" "w \<noteq> []"
  then have "s = pre @ w @ rest" using rx_search_SomeD [of r b s pre w rest caps] by auto
  then show "((r, False, rest), (r, b, s)) \<in> measure (\<lambda>(r, b, s). length s)"
    using \<open>w \<noteq> []\<close> by auto
qed simp

declare regex_iterate.simps [simp del]

definition rx_progress :: "rx \<Rightarrow> bool" where
  "rx_progress r \<longleftrightarrow> (\<forall>b w rest caps. rx_rel r b w rest caps \<longrightarrow> w \<noteq> [])"

lemma regex_iterate_None: "rx_search r b s = None \<Longrightarrow> regex_iterate r b s = []"
  by (subst regex_iterate.simps) simp

lemma regex_iterate_Some:
  assumes "rx_progress r" "rx_search r b s = Some (pre, w, rest, caps)"
  shows "regex_iterate r b s = caps # regex_iterate r False rest"
proof -
  have "w \<noteq> []" using assms rx_search_SomeD unfolding rx_progress_def by blast
  then show ?thesis by (subst regex_iterate.simps) (simp add: assms(2))
qed

text \<open>Every reported match is a match somewhere in the text.\<close>

lemma regex_iterate_rel:
  "caps \<in> set (regex_iterate r b s) \<Longrightarrow>
     \<exists>pre w rest b'. s = pre @ w @ rest \<and> rx_rel r b' w rest caps"
proof (induction r b s rule: regex_iterate.induct)
  case (1 r b s)
  show ?case
  proof (cases "rx_search r b s")
    case None
    with 1 show ?thesis by (simp add: regex_iterate_None)
  next
    case (Some x)
    then obtain pre w rest caps' where x: "x = (pre, w, rest, caps')" by (cases x) auto
    with Some have s: "s = pre @ w @ rest" and m: "rx_rel r (b \<and> pre = []) w rest caps'"
      using rx_search_SomeD [of r b s pre w rest caps'] by auto
    from "1.prems" Some x consider "caps = caps'"
      | "w \<noteq> []" "caps \<in> set (regex_iterate r False rest)"
      by (subst (asm) regex_iterate.simps) (auto split: if_splits)
    then show ?thesis
    proof cases
      case 1
      with s m show ?thesis by blast
    next
      case 2
      then obtain pre' w' rest' b' where "rest = pre' @ w' @ rest'" "rx_rel r b' w' rest' caps"
        using "1.IH" [OF Some, of pre "(w, rest, caps')" w "(rest, caps')" rest caps'] x by blast
      with s have "s = (pre @ w @ pre') @ w' @ rest'" by simp
      with \<open>rx_rel r b' w' rest' caps\<close> show ?thesis by blast
    qed
  qed
qed

text \<open>The groups reported are those of the first match at some position.\<close>

lemma regex_iterate_first:
  "caps \<in> set (regex_iterate r b s) \<Longrightarrow> \<exists>b' s' w rest ms. rx_all r b' s' = (w, rest, caps) # ms"
proof (induction r b s rule: regex_iterate.induct)
  case (1 r b s)
  show ?case
  proof (cases "rx_search r b s")
    case None
    with 1 show ?thesis by (simp add: regex_iterate_None)
  next
    case (Some x)
    then obtain pre w rest caps' where x: "x = (pre, w, rest, caps')" by (cases x) auto
    with Some have s: "s = pre @ w @ rest" "rx_rel r (b \<and> pre = []) w rest caps'"
      and hd: "hd (rx_all r (b \<and> pre = []) (w @ rest)) = (w, rest, caps')"
      using rx_search_SomeD [of r b s pre w rest caps'] by auto
    then have "rx_all r (b \<and> pre = []) (w @ rest) \<noteq> []" using rx_all_Nil_iff by blast
    with hd have first: "\<exists>ms. rx_all r (b \<and> pre = []) (w @ rest) = (w, rest, caps') # ms"
      by (metis list.collapse)
    from "1.prems" Some x consider "caps = caps'"
      | "w \<noteq> []" "caps \<in> set (regex_iterate r False rest)"
      by (subst (asm) regex_iterate.simps) (auto split: if_splits)
    then show ?thesis
    proof cases
      case 1
      with first show ?thesis by blast
    next
      case 2
      then show ?thesis
        using "1.IH" [OF Some, of pre "(w, rest, caps')" w "(rest, caps')" rest caps'] x by blast
    qed
  qed
qed

lemma concat_map_hd:
  assumes "\<And>x m ms. x \<in> set xs \<Longrightarrow> f x = m # ms \<Longrightarrow> Q m" "concat (map f xs) = m # ms"
  shows "Q m"
  using assms
proof (induction xs)
  case (Cons x xs)
  show ?case
  proof (cases "f x")
    case Nil
    then have "concat (map f xs) = m # ms" using Cons.prems(2) by simp
    then show ?thesis using Cons.IH Cons.prems(1) by (metis list.set_intros(2))
  next
    case (Cons m' ms')
    with Cons.prems(2) have "f x = m # ms'" by simp
    then show ?thesis by (rule Cons.prems(1) [OF list.set_intros(1)])
  qed
qed simp

subsection \<open>Greedy and lazy repetition\<close>

text \<open>
  A captured repetition at the head of a sequence, with the run length made explicit: a greedy one
  tries the longest run first, a lazy one the shortest.
\<close>

definition rep_step :: "nat \<Rightarrow> rx \<Rightarrow> bool \<Rightarrow> string \<Rightarrow> nat \<Rightarrow> rx_match list" where
  "rep_step m r b s k =
     (if m \<le> k then map (\<lambda>(w, z, c). (take k s @ w, z, take k s # c))
        (rx_all r (b \<and> take k s = []) (drop k s)) else [])"

lemma rx_all_group_rep:
  "rx_all (RSeq (RGroup (RRep g m p)) r) b s =
     (let ks = [0..<Suc (length (takeWhile p s))]
      in concat (map (rep_step m r b s) (if g then rev ks else ks)))"
proof -
  define n where "n = length (takeWhile p s)"
  have n: "n \<le> length s" by (simp add: n_def length_takeWhile_le)
  have *: "concat (map (\<lambda>(w1, y, c1). map (\<lambda>(w2, z, c2). (w1 @ w2, z, c1 @ c2))
          (rx_all r (b \<and> w1 = []) y)) (map (\<lambda>(w, y, c). (w, y, w # c))
          (map (\<lambda>(x, y). (x, y, [])) (filter (\<lambda>(x, y). m \<le> length x)
          (map (\<lambda>k. (take k s, drop k s)) ks))))) = concat (map (rep_step m r b s) ks)"
    if "\<forall>k\<in>set ks. k \<le> n" for ks
    using that
  proof (induction ks)
    case (Cons k ks)
    then have "min (length s) k = k" using n by auto
    with Cons show ?case by (simp add: rep_step_def)
  qed simp
  have "\<forall>k\<in>set [0..<Suc n]. k \<le> n" by auto
  then show ?thesis
    using * [of "[0..<Suc n]"] * [of "rev [0..<Suc n]"]
    by (simp add: rep_splits_def rev_map Let_def flip: n_def del: upt_Suc)
qed

lemma greedy_first:
  assumes "k \<le> n" "f k = x # xs" "\<And>j. k < j \<Longrightarrow> j \<le> n \<Longrightarrow> f j = []"
  shows "\<exists>ys. concat (map f (rev [0..<Suc n])) = x # ys"
  using assms
proof (induction n)
  case (Suc n)
  show ?case
  proof (cases "k = Suc n")
    case False
    with Suc.prems have "f (Suc n) = []" by simp
    with Suc False show ?thesis by simp
  qed (use Suc.prems in simp)
qed simp

lemma lazy_first:
  assumes "k \<le> n" "f k = x # xs" "\<And>j. j < k \<Longrightarrow> f j = []"
  shows "\<exists>ys. concat (map f [0..<Suc n]) = x # ys"
proof -
  have upt: "[0..<Suc n] = [0..<k] @ k # [Suc k..<Suc n]"
    using assms(1) by (metis le_imp_less_Suc upt_add_eq_append upt_conv_Cons le0 le_add_diff_inverse
        less_imp_le_nat)
  have "concat (map f [0..<k]) = []" using assms(3) by simp
  then have "concat (map f [0..<Suc n]) = x # xs @ concat (map f [Suc k..<Suc n])"
    unfolding upt by (simp add: assms(2) del: upt_Suc)
  then show ?thesis by blast
qed

text \<open>A captured greedy repetition that is not followed by anything takes the whole run.\<close>

lemma rx_all_group_run:
  "\<exists>ms. rx_all (RGroup (RRep True 0 p)) b s =
     (takeWhile p s, dropWhile p s, [takeWhile p s]) # ms"
proof -
  have "rep_splits p s = (takeWhile p s, dropWhile p s) #
      map (\<lambda>k. (take k s, drop k s)) (rev [0..<length (takeWhile p s)])"
    by (simp add: rep_splits_def dropWhile_eq_drop flip: takeWhile_eq_take)
  then show ?thesis by simp
qed

lemma rx_all_Bol_True: "rx_all (RSeq RBol r) True s = rx_all r True s"
  by (simp add: case_prod_unfold)

lemma rx_all_lit_Cons: "rx_all (RSeq (RLit [c]) r) b (c # s) =
    map (\<lambda>(w, z, caps). (c # w, z, caps)) (rx_all r False s)"
  by simp

end
