(* ===== verification/Unordered_Map.thy ===== *)
theory Unordered_Map
  imports Prelude "HOL-Library.Multiset"
begin

text \<open>
  \<open>std::unordered_map\<close>, which the program uses for request headers, query parameters, response
  headers, routes, default headers and its constant tables. A map is the list of its entries in
  the order in which a range-based \<open>for\<close> visits them; keys are distinct (\<open>um_ok\<close>). The
  language leaves the order of the visit open. The model puts a new entry first; the lemmas on
  \<open>mset\<close> show which results do not depend on that choice.

  The locale \<open>dictionary\<close> is the interface the clients rely on, interpreted here on the
  model's own operations.
\<close>

type_synonym ('k, 'v) umap = "('k \<times> 'v) list"

definition um_empty :: "('k, 'v) umap" where
  "um_empty = []"

definition um_find :: "('k, 'v) umap \<Rightarrow> 'k \<Rightarrow> 'v option" where
  "um_find m k = map_of m k"

text \<open>\<open>insert\<close> leaves an existing entry alone.\<close>

definition um_insert :: "('k, 'v) umap \<Rightarrow> 'k \<Rightarrow> 'v \<Rightarrow> ('k, 'v) umap" where
  "um_insert m k v = (case um_find m k of Some _ \<Rightarrow> m | None \<Rightarrow> (k, v) # m)"

text \<open>\<open>it = find(k); if (it != end()) it->second = v; else insert({k, v})\<close>.\<close>

definition um_assign :: "('k, 'v) umap \<Rightarrow> 'k \<Rightarrow> 'v \<Rightarrow> ('k, 'v) umap" where
  "um_assign m k v = (case um_find m k of
       Some _ \<Rightarrow> map (\<lambda>(k', v'). (k', if k' = k then v else v')) m
     | None \<Rightarrow> um_insert m k v)"

definition um_ok :: "('k, 'v) umap \<Rightarrow> bool" where
  "um_ok m \<longleftrightarrow> distinct (map fst m)"

text \<open>The getters' idiom: the value found, or the empty string.\<close>

definition um_get :: "(string, string) umap \<Rightarrow> string \<Rightarrow> string" where
  "um_get m k = (case um_find m k of Some v \<Rightarrow> v | None \<Rightarrow> '''')"

lemmas um_defs = um_empty_def um_find_def um_insert_def um_assign_def um_ok_def

lemma map_of_map_assign:
  "map_of (map (\<lambda>(k', v'). (k', if k' = k then v else v')) m) q =
     (if q = k then map_option (\<lambda>_. v) (map_of m q) else map_of m q)"
  by (induction m) auto

lemma map_fst_map_assign:
  "map fst (map (\<lambda>(k', v'). (k', if k' = k then v else v')) m) = map fst m"
  by (induction m) auto

subsection \<open>The interface\<close>

locale dictionary =
  fixes empty :: 'm
    and find :: "'m \<Rightarrow> 'k \<Rightarrow> 'v option"
    and insert_new :: "'m \<Rightarrow> 'k \<Rightarrow> 'v \<Rightarrow> 'm"
    and assign :: "'m \<Rightarrow> 'k \<Rightarrow> 'v \<Rightarrow> 'm"
    and ok :: "'m \<Rightarrow> bool"
  assumes find_empty: "find empty k = None"
    and find_insert: "find (insert_new m k v) q =
          (if q = k then Some (case find m k of Some w \<Rightarrow> w | None \<Rightarrow> v) else find m q)"
    and find_assign: "find (assign m k v) q = (if q = k then Some v else find m q)"
    and ok_empty: "ok empty"
    and ok_insert: "ok m \<Longrightarrow> ok (insert_new m k v)"
    and ok_assign: "ok m \<Longrightarrow> ok (assign m k v)"
begin

lemma find_assign_same: "find (assign m k v) k = Some v"
  by (simp add: find_assign)

lemma find_assign_other: "q \<noteq> k \<Longrightarrow> find (assign m k v) q = find m q"
  by (simp add: find_assign)

text \<open>A loop of insertions keeps the first value of every key.\<close>

lemma find_insert_all:
  "find (foldl (\<lambda>m (k, v). insert_new m k v) m kvs) q =
     (case find m q of Some w \<Rightarrow> Some w | None \<Rightarrow> map_of kvs q)"
proof (induction kvs arbitrary: m)
  case Nil
  then show ?case by (simp split: option.split)
next
  case (Cons kv kvs)
  then show ?case
    by (cases kv) (auto simp: find_insert split: option.splits)
qed

text \<open>A loop of assignments keeps the last one.\<close>

lemma find_assign_all:
  "find (foldl (\<lambda>m (k, v). assign m k v) m kvs) q =
     (case map_of (rev kvs) q of Some w \<Rightarrow> Some w | None \<Rightarrow> find m q)"
proof (induction kvs arbitrary: m)
  case Nil
  then show ?case by simp
next
  case (Cons kv kvs)
  then show ?case
    by (cases kv) (auto simp: find_assign map_add_def map_of_append split: option.splits)
qed

lemma ok_insert_all: "ok m \<Longrightarrow> ok (foldl (\<lambda>m (k, v). insert_new m k v) m kvs)"
proof (induction kvs arbitrary: m)
  case (Cons kv kvs)
  then show ?case by (cases kv) (simp add: ok_insert)
qed simp

lemma ok_assign_all: "ok m \<Longrightarrow> ok (foldl (\<lambda>m (k, v). assign m k v) m kvs)"
proof (induction kvs arbitrary: m)
  case (Cons kv kvs)
  then show ?case by (cases kv) (simp add: ok_assign)
qed simp

end

interpretation um: dictionary um_empty um_find um_insert um_assign um_ok
proof unfold_locales
  show "um_find (um_insert m k v) q =
      (if q = k then Some (case um_find m k of Some w \<Rightarrow> w | None \<Rightarrow> v) else um_find m q)"
    for m :: "('a, 'b) umap" and k v q
    by (auto simp: um_insert_def um_find_def split: option.splits)
next
  show "um_find (um_assign m k v) q = (if q = k then Some v else um_find m q)"
    for m :: "('a, 'b) umap" and k v q
    by (auto simp: um_assign_def um_insert_def um_find_def map_of_map_assign
        simp del: map_map split: option.splits)
next
  show "um_ok (um_insert m k v)" if "um_ok m" for m :: "('a, 'b) umap" and k v
    using that by (auto simp: um_insert_def um_ok_def um_find_def map_of_eq_None_iff
        split: option.splits)
next
  show "um_ok (um_assign m k v)" if "um_ok m" for m :: "('a, 'b) umap" and k v
    using that by (auto simp: um_assign_def um_insert_def um_ok_def um_find_def
        map_of_eq_None_iff map_fst_map_assign simp del: map_map split: option.splits)
qed (simp_all add: um_defs)

lemmas um_simps = um.find_empty um.find_insert um.find_assign
lemmas um_intros = um.ok_empty um.ok_insert um.ok_assign um.ok_insert_all um.ok_assign_all

subsection \<open>What does not depend on the order of the entries\<close>

lemma um_find_Some_in: "um_ok m \<Longrightarrow> um_find m k = Some v \<longleftrightarrow> (k, v) \<in> set m"
  by (auto simp: um_ok_def um_find_def map_of_eq_Some_iff)

lemma um_ok_mset: "mset m = mset m' \<Longrightarrow> um_ok m \<longleftrightarrow> um_ok m'"
  unfolding um_ok_def by (metis mset_map mset_eq_imp_distinct_iff)

lemma um_find_mset:
  assumes "um_ok m" "mset m = mset m'"
  shows "um_find m k = um_find m' k"
proof -
  have "um_ok m'" using assms um_ok_mset by blast
  moreover have "set m = set m'" using assms(2) by (rule mset_eq_setD)
  ultimately have "um_find m k = Some v \<longleftrightarrow> um_find m' k = Some v" for v
    using assms(1) by (simp add: um_find_Some_in)
  then show ?thesis by (metis not_Some_eq)
qed

lemma um_find_None_iff: "um_find m k = None \<longleftrightarrow> k \<notin> fst ` set m"
  by (simp add: um_find_def map_of_eq_None_iff)

end
