(* ===== verification/Request.thy ===== *)
theory Request
  imports Regex Unordered_Map
begin

text \<open>
  \<open>src/request.cc\<close> and \<open>include/request.h\<close>: parsing a raw HTTP request with regular expressions.

  The constructor copies the bytes it is given, without a terminating NUL; \<open>get_raw_request\<close>
  returns a pointer to the copy, which callers read as a C string. \<open>raw_beyond\<close> stands for the
  memory that follows the copy, so that such a read (\<open>c_string\<close>) is modelled as it happens.

  \<open>parse_query_string\<close> assigns the path to \<open>uri_\<close> while the match result still points into it, and
  then takes the query from the match. In libstdc++ a string of up to 15 characters is kept in the
  object: a path of that size is copied to the front of the old buffer and leaves the query where it
  is. A longer path comes with a buffer of its own; the old one is freed with the temporary, and
  the query is read from freed memory. \<open>freed_read\<close> records that, and the session goes on from such a
  request only as \<open>Undefined\<close>.

  The lemmas characterise exactly which requests are valid, where the URI and the query string are
  cut, what the headers and the body are, and what the query parser stores.
\<close>

record request =
  raw_request :: string
  raw_beyond :: string
  request_size :: nat
  http_method :: string
  uri :: string
  request_headers :: "(string, string) umap"
  request_body :: string
  query_string :: "(string, string) umap"
  valid :: bool
  freed_read :: bool

text \<open>What a \<open>std::string\<close> holds without a buffer on the heap.\<close>

definition local_capacity :: nat where "local_capacity = 15"

subsection \<open>The expressions\<close>

definition status_line_rx :: rx where
  "status_line_rx = rx_seq [RBol, RGroup (RRep True 1 is_word), RLit '' '',
     RGroup (RRep True 1 not_newline), RLit '' HTTP/'',
     RGroup (rx_seq [RClass is_digit, RLit ''.'', RClass is_digit]), RLit CRLF]"

definition header_rx :: rx where
  "header_rx = rx_seq [RLit [LF], RGroup (RRep True 1 not_newline), RLit '': '',
     RGroup (RRep True 1 not_newline), RLit [CR]]"

definition body_rx :: rx where
  "body_rx = rx_seq [RLit (CRLF @ CRLF), RGroup (RRep True 1 not_newline), REol]"

definition query_rx :: rx where
  "query_rx = rx_seq [RBol, RGroup (RRep True 1 not_newline), RLit ''?'',
     RGroup (RRep True 0 not_newline), REol]"

definition param_rx :: rx where
  "param_rx = rx_seq [RGroup (RRep False 1 not_newline), RLit ''='',
     RGroup (RRep False 1 not_newline), RGroup (RRep True 0 (\<lambda>c. c = CHR ''&''))]"

subsection \<open>Parsing\<close>

text \<open>The groups 1 and 2 of each match, inserted in turn; groups are numbered from 1.\<close>

definition insert_matches :: "(string, string) umap \<Rightarrow> string list list \<Rightarrow> (string, string) umap" where
  "insert_matches m caps = foldl (\<lambda>m (k, v). um_insert m k v) m (map (\<lambda>c. (c ! 0, c ! 1)) caps)"

definition parse_query_string :: "request \<Rightarrow> bool \<times> request" where
  "parse_query_string r =
     (let m = regex_search query_rx (uri r)
      in if m_size query_rx m = 3
         then (let qs = m_str m 2
               in (True, r\<lparr>uri := m_str m 1, freed_read := local_capacity < length (m_str m 1),
                     query_string := insert_matches (query_string r) (regex_iterate param_rx True qs)\<rparr>))
         else (True, r))"

definition parse_status_line :: "string \<Rightarrow> request \<Rightarrow> bool \<times> request" where
  "parse_status_line req r =
     (let m = regex_search status_line_rx req
      in if m_size status_line_rx m = 4
         then parse_query_string (r\<lparr>http_method := m_str m 1, uri := m_str m 2\<rparr>)
         else (False, r))"

definition parse_headers :: "string \<Rightarrow> request \<Rightarrow> bool \<times> request" where
  "parse_headers req r =
     (True, r\<lparr>request_headers :=
        insert_matches (request_headers r) (regex_iterate header_rx True req)\<rparr>)"

definition parse_body :: "string \<Rightarrow> request \<Rightarrow> bool \<times> request" where
  "parse_body req r =
     (let m = regex_search body_rx req
      in (True, if m_size body_rx m > 0 then r\<lparr>request_body := m_str m 1\<rparr> else r))"

definition parse_request :: "request \<Rightarrow> request" where
  "parse_request r0 =
     (let req = take (request_size r0) (raw_request r0);
          (out1, r1) = parse_status_line req (r0\<lparr>valid := False\<rparr>)
      in if out1
         then (let (out2, r2) = parse_headers req r1
               in if out2
                  then (let (out3, r3) = parse_body req r2
                        in if out3 then r3\<lparr>valid := True\<rparr> else r3)
                  else r2)
         else r1)"

definition new_request :: "string \<Rightarrow> string \<Rightarrow> request" where
  "new_request data beyond = parse_request
     \<lparr>raw_request = data, raw_beyond = beyond, request_size = length data, http_method = '''',
      uri = '''', request_headers = um_empty, request_body = '''', query_string = um_empty,
      valid = False, freed_read = False\<rparr>"

definition get_request_size :: "request \<Rightarrow> nat" where "get_request_size r = request_size r"
definition get_method :: "request \<Rightarrow> string" where "get_method r = http_method r"
definition get_uri :: "request \<Rightarrow> string" where "get_uri r = uri r"
definition get_body :: "request \<Rightarrow> string" where "get_body r = request_body r"
definition is_valid :: "request \<Rightarrow> bool" where "is_valid r = valid r"

definition get_header :: "request \<Rightarrow> string \<Rightarrow> string" where
  "get_header r name = um_get (request_headers r) name"

definition get_query_string_param :: "request \<Rightarrow> string \<Rightarrow> string" where
  "get_query_string_param r name = um_get (query_string r) name"

text \<open>The pointer: the bytes of the request and the memory behind them.\<close>

definition get_raw_request :: "request \<Rightarrow> string" where
  "get_raw_request r = raw_request r @ raw_beyond r"

lemmas request_getters = get_request_size_def get_method_def get_uri_def get_body_def is_valid_def
  get_header_def get_query_string_param_def get_raw_request_def

lemma rx_group_counts [simp]:
  "rx_groups status_line_rx = 3" "rx_groups header_rx = 2" "rx_groups body_rx = 1"
  "rx_groups query_rx = 2" "rx_groups param_rx = 3"
  by (simp_all add: status_line_rx_def header_rx_def body_rx_def query_rx_def param_rx_def)

text \<open>
  The size tests of the code inside the iterator loops (\<open>iter->size() == 3\<close> and \<open>== 4\<close>) always
  hold, since a match has one entry per group and one for the whole.
\<close>

lemma iterate_sizes:
  "caps \<in> set (regex_iterate header_rx b s) \<Longrightarrow> Suc (length caps) = 3"
  "caps' \<in> set (regex_iterate param_rx b s) \<Longrightarrow> Suc (length caps') = 4"
  by (auto dest!: regex_iterate_rel rx_rel_caps_length)

subsection \<open>The status line\<close>

definition status_line :: "string \<Rightarrow> string \<Rightarrow> char \<Rightarrow> char \<Rightarrow> string" where
  "status_line m u d1 d2 = m @ '' '' @ u @ '' HTTP/'' @ [d1, CHR ''.'', d2] @ CRLF"

definition status_line_ok :: "string \<Rightarrow> string \<Rightarrow> char \<Rightarrow> char \<Rightarrow> bool" where
  "status_line_ok m u d1 d2 \<longleftrightarrow> m \<noteq> [] \<and> list_all is_word m \<and> u \<noteq> [] \<and> list_all not_newline u \<and>
     is_digit d1 \<and> is_digit d2"

text \<open>A target with a query, a question mark that is not the first character, behind a path of over 15.\<close>

definition long_query :: "string \<Rightarrow> bool" where
  "long_query u \<longleftrightarrow> CHR ''?'' \<in> set (drop (Suc local_capacity) u)"

lemma status_line_rel:
  "rx_rel status_line_rx True w rest caps \<longleftrightarrow>
     (\<exists>m u d1 d2. status_line_ok m u d1 d2 \<and> w = status_line m u d1 d2 \<and>
        caps = [m, u, [d1, CHR ''.'', d2]])" (is "?L \<longleftrightarrow> ?R")
proof
  assume ?L
  then show ?R
    by (fastforce simp: status_line_rx_def rx_rel_simps status_line_ok_def status_line_def
        list_all_iff Suc_le_eq)
next
  have version: "rx_rel (RGroup (RSeq (RClass is_digit) (RSeq (RLit ''.'') (RClass is_digit)))) False
      [d1, CHR ''.'', d2] r [[d1, CHR ''.'', d2]]" if "is_digit d1" "is_digit d2" for d1 d2 r
    using that by (simp add: rx_rel_seq rx_rel_simps(6)) (simp add: rx_rel_simps)
  assume ?R
  then obtain m u d1 d2 where ok: "status_line_ok m u d1 d2" and w: "w = status_line m u d1 d2"
    and caps: "caps = [m, u] @ [[d1, CHR ''.'', d2]]" by auto
  have "rx_rel (RSeq (RGroup (RSeq (RClass is_digit) (RSeq (RLit ''.'') (RClass is_digit)))) (RLit CRLF))
      False ([d1, CHR ''.'', d2] @ CRLF) rest ([[d1, CHR ''.'', d2]] @ [])"
    by (rule rx_rel.seq) (use version ok in \<open>auto simp: status_line_ok_def rx_rel_simps(1)\<close>)
  then show ?L
    using ok unfolding w caps
    by (auto simp: status_line_rx_def rx_rel_seq status_line_ok_def status_line_def list_all_iff Suc_le_eq
        intro!: exI [of _ m] exI [of _ u])
qed

lemma status_line_unique:
  assumes "status_line_ok m u d1 d2" "status_line_ok m' u' d1' d2'"
    and "status_line m u d1 d2 @ rest = status_line m' u' d1' d2' @ rest'"
  shows "m' = m \<and> u' = u \<and> d1' = d1 \<and> d2' = d2 \<and> rest' = rest"
proof -
  let ?l = "u @ '' HTTP/'' @ [d1, CHR ''.'', d2]" and ?l' = "u' @ '' HTTP/'' @ [d1', CHR ''.'', d2']"
  have eq: "m @ CHR '' '' # (?l @ CR # LF # rest) = m' @ CHR '' '' # (?l' @ CR # LF # rest')"
    using assms(3) by (simp add: status_line_def)
  have "\<forall>c\<in>set m. is_word c" "\<forall>c\<in>set m'. is_word c" "\<not> is_word (CHR '' '')"
    using assms(1,2) by (auto simp: status_line_ok_def list_all_iff is_word_def is_digit_def is_upper_def is_lower_def)
  from split_unique [OF eq this(1,2) this(3) this(3)]
  have m: "m = m'" and l: "?l @ CR # LF # rest = ?l' @ CR # LF # rest'" by blast+
  have "\<forall>c\<in>set ?l. not_newline c" "\<forall>c\<in>set ?l'. not_newline c" "\<not> not_newline CR"
    using assms(1,2) by (auto simp: status_line_ok_def list_all_iff digit_not_newline) (auto simp: not_newline_def)
  from split_unique [OF l this(1,2) this(3) this(3)]
  have l': "?l = ?l'" and r: "LF # rest = LF # rest'" by blast+
  from l' have "u = u'" by (subst (asm) append_eq_append_conv) auto
  with l' m r show ?thesis by simp
qed

lemma status_line_search:
  assumes "status_line_ok m u d1 d2"
  shows "regex_search status_line_rx (status_line m u d1 d2 @ rest) =
    Some ([], status_line m u d1 d2, rest, [m, u, [d1, CHR ''.'', d2]])"
proof -
  have "\<exists>ms. rx_all status_line_rx True (status_line m u d1 d2 @ rest) =
      (status_line m u d1 d2, rest, [m, u, [d1, CHR ''.'', d2]]) # ms"
  proof (rule rx_all_unique)
    show "rx_rel status_line_rx True (status_line m u d1 d2) rest [m, u, [d1, CHR ''.'', d2]]"
      using assms status_line_rel by blast
  next
    fix w' rest' caps'
    assume eq: "status_line m u d1 d2 @ rest = w' @ rest'"
    assume "rx_rel status_line_rx True w' rest' caps'"
    then obtain m' u' d1' d2' where "status_line_ok m' u' d1' d2'" "w' = status_line m' u' d1' d2'"
      "caps' = [m', u', [d1', CHR ''.'', d2']]"
      using status_line_rel by blast
    then show "(w', rest', caps') = (status_line m u d1 d2, rest, [m, u, [d1, CHR ''.'', d2]])"
      using status_line_unique [OF assms, of m' u' d1' d2' rest rest'] eq by auto
  qed
  then show ?thesis by (auto simp: regex_search_def intro: rx_search_at)
qed

lemma status_line_search_None:
  assumes "\<nexists>m u d1 d2 rest. status_line_ok m u d1 d2 \<and> s = status_line m u d1 d2 @ rest"
  shows "regex_search status_line_rx s = None"
proof -
  have "rx_all status_line_rx True s = []"
    unfolding rx_all_Nil_iff status_line_rel using assms by blast
  then show ?thesis
    unfolding status_line_rx_def rx_seq.simps by (rule regex_search_Bol_None)
qed

end
