(* ===== verification/Request_Correct.thy ===== *)
theory Request_Correct
  imports Request
begin

text \<open>
  What the request parser computes: where the URI is cut, which headers, body and query parameters
  are stored, and the round trip from the parts of a request to the parsed object.
\<close>

subsection \<open>The query string\<close>

definition query_tail :: rx where
  "query_tail = RSeq (RLit ''?'') (RSeq (RGroup (RRep True 0 not_newline)) REol)"

lemma query_rx_eq: "query_rx = RSeq RBol (RSeq (RGroup (RRep True 1 not_newline)) query_tail)"
  by (simp add: query_rx_def query_tail_def)

lemma query_tail_rel:
  "rx_rel query_tail b w rest caps \<longleftrightarrow>
     (\<exists>q. w = CHR ''?'' # q \<and> rest = [] \<and> caps = [q] \<and> (\<forall>c\<in>set q. not_newline c))"
  by (auto simp: query_tail_def rx_rel_seq rx_rel_simps(8))

lemma query_tail_at:
  assumes "\<forall>c\<in>set q. not_newline c"
  shows "\<exists>ms. rx_all query_tail b (CHR ''?'' # q) = (CHR ''?'' # q, [], [q]) # ms"
proof -
  have "\<exists>ms. rx_all query_tail b ((CHR ''?'' # q) @ []) = (CHR ''?'' # q, [], [q]) # ms"
    by (rule rx_all_unique) (use assms query_tail_rel in auto)
  then show ?thesis by simp
qed

lemma query_search:
  assumes a: "a \<noteq> []" "\<forall>c\<in>set a. not_newline c"
    and q: "\<forall>c\<in>set q. not_newline c" "CHR ''?'' \<notin> set q"
  shows "regex_search query_rx (a @ CHR ''?'' # q) = Some ([], a @ CHR ''?'' # q, [], [a, q])"
proof -
  let ?s = "a @ CHR ''?'' # q" and ?f = "rep_step 1 query_tail True (a @ CHR ''?'' # q)"
  have n: "length (takeWhile not_newline ?s) = length ?s"
    using a q by (subst takeWhile_all) (auto simp: not_newline_def)
  obtain ms where "rx_all query_tail False (CHR ''?'' # q) = (CHR ''?'' # q, [], [q]) # ms"
    using query_tail_at q(1) by blast
  then have hit: "?f (length a) = (?s, [], [a, q]) # map (\<lambda>(w, z, c). (a @ w, z, a # c)) ms"
    using a(1) by (simp add: rep_step_def Suc_le_eq)
  have miss: "?f j = []" if j: "length a < j" for j
  proof -
    have "j - length a = Suc (j - Suc (length a))" using j by simp
    then have "drop j ?s = drop (j - Suc (length a)) q" using j by simp
    moreover have "rx_all query_tail b (drop (j - Suc (length a)) q) = []" for b
      unfolding rx_all_Nil_iff query_tail_rel using q(2)
      by clarsimp (metis in_set_dropD list.set_intros(1))
    ultimately show ?thesis by (simp add: rep_step_def)
  qed
  have "\<exists>ys. concat (map ?f (rev [0..<Suc (length ?s)])) = (?s, [], [a, q]) # ys"
    by (rule greedy_first [of "length a" _ ?f, OF _ hit miss]) simp_all
  then have "\<exists>ys. rx_all query_rx True ?s = (?s, [], [a, q]) # ys"
    unfolding query_rx_eq rx_all_Bol_True rx_all_group_rep by (simp add: n Let_def del: upt_Suc)
  then show ?thesis by (auto simp: regex_search_def intro: rx_search_at)
qed

lemma query_search_None:
  assumes "CHR ''?'' \<notin> set (tl u)"
  shows "regex_search query_rx u = None"
proof -
  have "rx_all query_rx True u = []"
    unfolding rx_all_Nil_iff query_rx_eq rx_rel_seq query_tail_rel
    using assms by (auto simp: Suc_le_length_iff)
  then show ?thesis unfolding query_rx_eq by (rule regex_search_Bol_None)
qed

subsection \<open>The parameters of the query string\<close>

definition param_value :: rx where
  "param_value = RSeq (RGroup (RRep False 1 not_newline)) (RGroup (RRep True 0 (\<lambda>c. c = CHR ''&'')))"

lemma param_rx_eq: "param_rx = RSeq (RGroup (RRep False 1 not_newline)) (RSeq (RLit ''='') param_value)"
  by (simp add: param_rx_def param_value_def)

text \<open>The lazy repetition of the value stops after one character.\<close>

lemma param_value_first:
  assumes "not_newline c"
  shows "\<exists>ms. rx_all param_value b (c # y) =
    (c # takeWhile (\<lambda>c. c = CHR ''&'') y, dropWhile (\<lambda>c. c = CHR ''&'') y,
     [[c], takeWhile (\<lambda>c. c = CHR ''&'') y]) # ms"
proof -
  let ?amp = "\<lambda>c. c = CHR ''&''" and ?g = "RGroup (RRep True 0 (\<lambda>c. c = CHR ''&''))"
  obtain ms where "rx_all ?g False y = (takeWhile ?amp y, dropWhile ?amp y, [takeWhile ?amp y]) # ms"
    using rx_all_group_run by blast
  then have hit: "rep_step 1 ?g b (c # y) 1 =
      (c # takeWhile ?amp y, dropWhile ?amp y, [[c], takeWhile ?amp y]) #
      map (\<lambda>(w, z, caps). (c # w, z, [c] # caps)) ms"
    by (simp add: rep_step_def)
  have miss: "rep_step 1 ?g b (c # y) j = []" if "j < 1" for j
    using that by (simp add: rep_step_def)
  have "1 \<le> length (takeWhile not_newline (c # y))" using assms by simp
  from lazy_first [of 1 _ "rep_step 1 ?g b (c # y)", OF this hit miss] show ?thesis
    unfolding param_value_def rx_all_group_rep by (simp add: Let_def del: upt_Suc)
qed

lemma param_value_none: "rx_all param_value b y = []" if "y = [] \<or> \<not> not_newline (hd y)"
  unfolding rx_all_Nil_iff param_value_def rx_rel_seq using that by (auto simp: Suc_le_length_iff)

lemma param_value_single: "rx_all param_value b y = (w, rest, caps) # ms \<Longrightarrow> length (caps ! 0) = 1"
proof (cases y)
  case (Cons c y')
  assume *: "rx_all param_value b y = (w, rest, caps) # ms"
  show ?thesis
  proof (cases "not_newline c")
    case True
    then show ?thesis using param_value_first [OF True, of b y'] * Cons by auto
  next
    case False
    then show ?thesis using param_value_none [of y b] * Cons by simp
  qed
qed (use param_value_none in simp)

lemma param_first_single:
  assumes "rx_all param_rx b s = m # ms"
  shows "length (snd (snd m) ! 1) = 1"
proof -
  let ?ks = "[0..<Suc (length (takeWhile not_newline s))]"
  have cat: "concat (map (rep_step 1 (RSeq (RLit ''='') param_value) b s) ?ks) = m # ms"
    using assms unfolding param_rx_eq rx_all_group_rep by (simp add: Let_def del: upt_Suc)
  show ?thesis
  proof (rule concat_map_hd [OF _ cat])
    fix k m' ms'
    assume "rep_step 1 (RSeq (RLit ''='') param_value) b s k = m' # ms'"
    then obtain w z c ms'' where all: "rx_all (RSeq (RLit ''='') param_value) (b \<and> take k s = []) (drop k s) =
        (w, z, c) # ms''" and m': "m' = (take k s @ w, z, take k s # c)"
      by (auto simp: rep_step_def map_eq_Cons_conv split: if_splits)
    from all obtain w' z' c' ms3 b' y where "rx_all param_value b' y = (w', z', c') # ms3" "c = c'"
      by (auto simp: map_eq_Cons_conv split: if_splits)
    then show "length (snd (snd m') ! 1) = 1"
      using param_value_single m' by simp
  qed
qed

lemma param_iterate_single: "caps \<in> set (regex_iterate param_rx b s) \<Longrightarrow> length (caps ! 1) = 1"
  using regex_iterate_first param_first_single by fastforce

lemma param_at:
  assumes k: "k \<noteq> []" "\<forall>c\<in>set k. not_newline c" "CHR ''='' \<notin> set k" and c: "not_newline c"
  shows "\<exists>ms. rx_all param_rx b (k @ CHR ''='' # c # y) =
    (k @ CHR ''='' # c # takeWhile (\<lambda>c. c = CHR ''&'') y, dropWhile (\<lambda>c. c = CHR ''&'') y,
     [k, [c], takeWhile (\<lambda>c. c = CHR ''&'') y]) # ms"
proof -
  let ?s = "k @ CHR ''='' # c # y" and ?f = "rep_step 1 (RSeq (RLit ''='') param_value) b (k @ CHR ''='' # c # y)"
  let ?amp = "\<lambda>c. c = CHR ''&''"
  obtain ms where "rx_all param_value False (c # y) =
      (c # takeWhile ?amp y, dropWhile ?amp y, [[c], takeWhile ?amp y]) # ms"
    using param_value_first [OF c] by blast
  then have hit: "?f (length k) = (k @ CHR ''='' # c # takeWhile ?amp y, dropWhile ?amp y,
      [k, [c], takeWhile ?amp y]) # map (\<lambda>(w, z, c). (k @ CHR ''='' # w, z, k # c)) ms"
    using k(1) by (simp add: rep_step_def Suc_le_eq case_prod_unfold)
  have miss: "?f j = []" if "j < length k" for j
  proof -
    have "drop j ?s = k ! j # drop (Suc j) ?s" using that by (simp add: Cons_nth_drop_Suc nth_append)
    moreover have "k ! j \<noteq> CHR ''=''" using that k(3) nth_mem by metis
    ultimately show ?thesis by (simp add: rep_step_def)
  qed
  have "length k \<le> length (takeWhile not_newline ?s)"
    using k(2) length_le_takeWhile by blast
  from lazy_first [of "length k" _ ?f, OF this hit miss] show ?thesis
    unfolding param_rx_eq rx_all_group_rep by (simp add: Let_def del: upt_Suc)
qed

lemma param_none_Nil: "rx_search param_rx b [] = None"
proof -
  have "rx_all param_rx b' [] = []" for b'
    unfolding rx_all_Nil_iff param_rx_eq rx_rel_seq by auto
  then show ?thesis by (simp add: rx_search_None_iff)
qed

lemma param_rx_progress: "rx_progress param_rx"
  by (auto simp: rx_progress_def param_rx_eq rx_rel_seq)

text \<open>A query \<open>k1=c1&k2=c2&...\<close> whose values are single characters.\<close>

fun query_text :: "(string \<times> char) list \<Rightarrow> string" where
  "query_text [] = []"
| "query_text [(k, c)] = k @ CHR ''='' # [c]"
| "query_text ((k, c) # ps) = k @ CHR ''='' # c # CHR ''&'' # query_text ps"

definition param_ok :: "string \<times> char \<Rightarrow> bool" where
  "param_ok p \<longleftrightarrow> fst p \<noteq> [] \<and> list_all not_newline (fst p) \<and> CHR ''='' \<notin> set (fst p) \<and>
     hd (fst p) \<noteq> CHR ''&'' \<and> not_newline (snd p)"

lemma query_text_hd: "ps \<noteq> [] \<Longrightarrow> list_all param_ok ps \<Longrightarrow> \<exists>x xs. query_text ps = x # xs \<and> x \<noteq> CHR ''&''"
  by (cases ps rule: query_text.cases) (auto simp: param_ok_def neq_Nil_conv)

lemma query_iterate:
  "list_all param_ok ps \<Longrightarrow>
     map (\<lambda>c. (c ! 0, c ! 1)) (regex_iterate param_rx b (query_text ps)) = map (\<lambda>(k, c). (k, [c])) ps"
proof (induction ps arbitrary: b rule: query_text.induct)
  case 1
  then show ?case by (simp add: regex_iterate_None [OF param_none_Nil])
next
  case (2 k c)
  then have ok: "k \<noteq> []" "\<forall>c\<in>set k. not_newline c" "CHR ''='' \<notin> set k" "not_newline c"
    by (auto simp: param_ok_def list_all_iff)
  obtain ms where "rx_all param_rx b (k @ CHR ''='' # c # []) =
      (k @ CHR ''='' # [c], [], [k, [c], []]) # ms"
    using param_at [OF ok, of b "[]"] by auto
  from regex_iterate_Some [OF param_rx_progress rx_search_at [OF this]]
  have "regex_iterate param_rx b (k @ CHR ''='' # c # []) =
      [k, [c], []] # regex_iterate param_rx False []" .
  then show ?case by (simp add: regex_iterate_None [OF param_none_Nil])
next
  case (3 k c p ps)
  then have ok: "k \<noteq> []" "\<forall>c\<in>set k. not_newline c" "CHR ''='' \<notin> set k" "not_newline c"
    by (auto simp: param_ok_def list_all_iff)
  have rest: "list_all param_ok (p # ps)" using 3 by simp
  then obtain x xs where x: "query_text (p # ps) = x # xs" "x \<noteq> CHR ''&''"
    using query_text_hd by blast
  obtain ms where "rx_all param_rx b (k @ CHR ''='' # c # CHR ''&'' # query_text (p # ps)) =
      (k @ CHR ''='' # c # ''&'', query_text (p # ps), [k, [c], ''&'']) # ms"
    using param_at [OF ok, of b "CHR ''&'' # query_text (p # ps)"] x by auto
  from regex_iterate_Some [OF param_rx_progress rx_search_at [OF this]]
  show ?case using "3.IH" [OF rest, of False] by simp
qed

subsection \<open>The headers\<close>

text \<open>Does the text contain a colon and a space?\<close>

fun has_colon_space :: "string \<Rightarrow> bool" where
  "has_colon_space [] = False"
| "has_colon_space (c # cs) = ((c = CHR '':'' \<and> take 1 cs = '' '') \<or> has_colon_space cs)"

lemma has_colon_space_append: "has_colon_space (a @ CHR '':'' # CHR '' '' # b)"
  by (induction a) auto

definition header_tail :: rx where
  "header_tail = RSeq (RLit '': '') (RSeq (RGroup (RRep True 1 not_newline)) (RLit [CR]))"

lemma header_rx_eq: "header_rx = RSeq (RLit [LF]) (RSeq (RGroup (RRep True 1 not_newline)) header_tail)"
  by (simp add: header_rx_def header_tail_def)

lemma header_tail_rel:
  "rx_rel header_tail b w rest caps \<longleftrightarrow>
     (\<exists>v. w = CHR '':'' # CHR '' '' # v @ [CR] \<and> caps = [v] \<and> v \<noteq> [] \<and> (\<forall>c\<in>set v. not_newline c))"
  by (auto simp: header_tail_def rx_rel_seq rx_rel_simps(1) Suc_le_eq)

lemma not_newline_CR: "\<not> not_newline CR"
  by (simp add: not_newline_def)

lemma header_tail_at:
  assumes "v \<noteq> []" "\<forall>c\<in>set v. not_newline c"
  shows "\<exists>ms. rx_all header_tail b (CHR '':'' # CHR '' '' # v @ CR # rest) =
    (CHR '':'' # CHR '' '' # v @ [CR], rest, [v]) # ms"
proof -
  have "\<exists>ms. rx_all header_tail b ((CHR '':'' # CHR '' '' # v @ [CR]) @ rest) =
      (CHR '':'' # CHR '' '' # v @ [CR], rest, [v]) # ms"
  proof (rule rx_all_unique)
    fix w' rest' caps'
    assume eq: "(CHR '':'' # CHR '' '' # v @ [CR]) @ rest = w' @ rest'"
      and "rx_rel header_tail b w' rest' caps'"
    then obtain v' where v': "w' = CHR '':'' # CHR '' '' # v' @ [CR]" "caps' = [v']"
      "\<forall>c\<in>set v'. not_newline c" by (auto simp: header_tail_rel)
    with eq have "v @ CR # rest = v' @ CR # rest'" by simp
    from split_unique [OF this assms(2) v'(3) not_newline_CR not_newline_CR]
    show "(w', rest', caps') = (CHR '':'' # CHR '' '' # v @ [CR], rest, [v])"
      using v' by simp
  qed (use assms header_tail_rel in auto)
  then show ?thesis by simp
qed

lemma drop_append_le: "j \<le> length xs \<Longrightarrow> drop j (xs @ ys) = drop j xs @ ys"
  by simp

lemma colon_in_tail:
  assumes "length n < j" "drop j (n @ CHR '':'' # CHR '' '' # v) = CHR '':'' # CHR '' '' # v'"
  shows "has_colon_space v"
proof -
  define i where "i = j - Suc (length n)"
  have "j - length n = Suc i" using assms(1) by (simp add: i_def)
  then have "drop i (CHR '' '' # v) = CHR '':'' # CHR '' '' # v'"
    using assms by (simp only: drop_append drop_all less_imp_le append_Nil drop_Suc_Cons)
  then obtain i' where i': "drop i' v = CHR '':'' # CHR '' '' # v'" by (cases i) auto
  have "v = take i' v @ CHR '':'' # CHR '' '' # v'"
    unfolding i' [symmetric] by (rule append_take_drop_id [symmetric])
  then show ?thesis by (metis has_colon_space_append)
qed

lemma header_at:
  assumes n: "n \<noteq> []" "\<forall>c\<in>set n. not_newline c"
    and v: "v \<noteq> []" "\<forall>c\<in>set v. not_newline c" "\<not> has_colon_space v"
  shows "\<exists>ms. rx_all header_rx b (LF # n @ CHR '':'' # CHR '' '' # v @ CR # rest) =
    (LF # n @ CHR '':'' # CHR '' '' # v @ [CR], rest, [n, v]) # ms"
proof -
  let ?line = "n @ CHR '':'' # CHR '' '' # v"
  let ?s = "?line @ CR # rest" and ?f = "rep_step 1 header_tail False (?line @ CR # rest)"
  have line: "\<forall>c\<in>set ?line. not_newline c" using n v by (auto simp: not_newline_def)
  have tw: "takeWhile not_newline ?s = ?line"
    using takeWhile_append_stop [OF line not_newline_CR] by simp
  obtain ms where "rx_all header_tail False (CHR '':'' # CHR '' '' # v @ CR # rest) =
      (CHR '':'' # CHR '' '' # v @ [CR], rest, [v]) # ms"
    using header_tail_at v(1,2) by blast
  then have hit: "?f (length n) = (?line @ [CR], rest, [n, v]) # map (\<lambda>(w, z, c). (n @ w, z, n # c)) ms"
    using n(1) by (simp add: rep_step_def Suc_le_eq)
  have miss: "?f j = []" if j: "length n < j" "j \<le> length ?line" for j
  proof (rule ccontr)
    assume "?f j \<noteq> []"
    then have "rx_all header_tail (False \<and> take j ?s = []) (drop j ?s) \<noteq> []"
      by (auto simp: rep_step_def split: if_splits)
    then obtain v' rest' where eq: "drop j ?s = CHR '':'' # CHR '' '' # v' @ CR # rest'"
      and v': "\<forall>c\<in>set v'. not_newline c"
      by (auto simp: rx_all_Nil_iff header_tail_rel)
    have e: "drop j ?line @ CR # rest = (CHR '':'' # CHR '' '' # v') @ CR # rest'"
      unfolding drop_append_le [OF j(2), symmetric] eq by simp
    have l: "\<forall>c\<in>set (drop j ?line). not_newline c" using line by (meson in_set_dropD)
    have r: "\<forall>c\<in>set (CHR '':'' # CHR '' '' # v'). not_newline c" using v' by (auto simp: not_newline_def)
    from split_unique [OF e l r not_newline_CR not_newline_CR]
    have d: "drop j ?line = CHR '':'' # CHR '' '' # v'" by (rule conjunct1)
    from colon_in_tail [OF j(1) d] v(3) show False by simp
  qed
  have "\<exists>ys. concat (map ?f (rev [0..<Suc (length ?line)])) = (?line @ [CR], rest, [n, v]) # ys"
    by (rule greedy_first [of "length n" _ ?f, OF _ hit miss]) simp_all
  then have "\<exists>ys. rx_all (RSeq (RGroup (RRep True 1 not_newline)) header_tail) False ?s =
      (?line @ [CR], rest, [n, v]) # ys"
    unfolding rx_all_group_rep tw by (simp add: Let_def del: upt_Suc)
  then show ?thesis
    unfolding header_rx_eq rx_all_lit_Cons by auto
qed

lemma header_rx_progress: "rx_progress header_rx"
  by (auto simp: rx_progress_def header_rx_eq rx_rel_seq)

lemma header_rel:
  "rx_rel header_rx b w rest caps \<longleftrightarrow>
     (\<exists>n v. w = LF # n @ CHR '':'' # CHR '' '' # v @ [CR] \<and> caps = [n, v] \<and> n \<noteq> [] \<and> v \<noteq> [] \<and>
        (\<forall>c\<in>set n. not_newline c) \<and> (\<forall>c\<in>set v. not_newline c))"
  by (fastforce simp: header_rx_eq rx_rel_seq header_tail_rel Suc_le_eq)

lemma header_rx_skip: "LF \<notin> set pre \<Longrightarrow> pre \<noteq> [] \<Longrightarrow>
    rx_search header_rx b (pre @ s) = map_option (\<lambda>(p, m). (pre @ p, m)) (rx_search header_rx False s)"
proof -
  assume pre: "LF \<notin> set pre" "pre \<noteq> []"
  have "rx_all header_rx b' (q @ s) = []" if "pre = p @ q" "q \<noteq> []" for p q b'
    using that pre by (cases q) (auto simp: rx_all_Nil_iff header_rel)
  then show ?thesis using rx_search_skip_many [of pre header_rx b s] pre by simp
qed

definition headers_text :: "(string \<times> string) list \<Rightarrow> string" where
  "headers_text hs = concat (map (\<lambda>(n, v). n @ '': '' @ v @ CRLF) hs)"

definition header_ok :: "string \<times> string \<Rightarrow> bool" where
  "header_ok h \<longleftrightarrow> fst h \<noteq> [] \<and> list_all not_newline (fst h) \<and> snd h \<noteq> [] \<and>
     list_all not_newline (snd h) \<and> \<not> has_colon_space (snd h)"

lemma headers_iterate:
  "list_all header_ok hs \<Longrightarrow>
     regex_iterate header_rx b (LF # headers_text hs @ t) =
     map (\<lambda>(n, v). [n, v]) hs @ regex_iterate header_rx (b \<and> hs = []) (LF # t)"
proof (induction hs arbitrary: b)
  case Nil
  then show ?case by (simp add: headers_text_def)
next
  case (Cons h hs)
  obtain n v where h: "h = (n, v)" by (cases h)
  with Cons.prems have ok: "n \<noteq> []" "\<forall>c\<in>set n. not_newline c" "v \<noteq> []"
    "\<forall>c\<in>set v. not_newline c" "\<not> has_colon_space v"
    by (auto simp: header_ok_def list_all_iff)
  have eq: "LF # headers_text (h # hs) @ t =
      LF # n @ CHR '':'' # CHR '' '' # v @ CR # (LF # headers_text hs @ t)"
    by (simp add: headers_text_def h)
  obtain ms where "rx_all header_rx b (LF # headers_text (h # hs) @ t) =
      (LF # n @ CHR '':'' # CHR '' '' # v @ [CR], LF # headers_text hs @ t, [n, v]) # ms"
    unfolding eq using header_at [OF ok] by blast
  from regex_iterate_Some [OF header_rx_progress rx_search_at [OF this]] Cons
  show ?case by (simp add: h)
qed

end
