(* ===== verification/Request_Props.thy ===== *)
theory Request_Props
  imports Request_Correct "HOL-Library.Sublist"
begin

text \<open>
  The properties of the request parser: which requests are valid, where the URI is cut, which body
  is kept, what the headers and query parameters are, and the round trip from a request's parts.
\<close>

subsection \<open>The body\<close>

lemma split_unique_last:
  assumes "r @ x # xs = r' @ y # ys" "\<forall>z\<in>set xs. P z" "\<forall>z\<in>set ys. P z" "\<not> P x" "\<not> P y"
  shows "r = r' \<and> x = y \<and> xs = ys"
proof -
  have "rev xs @ x # rev r = rev ys @ y # rev r'"
    using arg_cong [OF assms(1), of rev] by simp
  from split_unique [OF this, of P] assms(2-) show ?thesis by simp
qed

lemma body_rel:
  "rx_rel body_rx f w rest caps \<longleftrightarrow>
     (\<exists>b. w = CRLF @ CRLF @ b \<and> rest = [] \<and> caps = [b] \<and> b \<noteq> [] \<and> (\<forall>c\<in>set b. not_newline c))"
  by (auto simp: body_rx_def rx_rel_seq rx_rel_simps(8) Suc_le_eq)

lemma not_newline_LF: "\<not> not_newline LF"
  by (simp add: not_newline_def)

lemma body_split:
  assumes "p @ CRLF @ CRLF @ b = p' @ CRLF @ CRLF @ b'"
    and "\<forall>c\<in>set b. not_newline c" "\<forall>c\<in>set b'. not_newline c"
  shows "p = p' \<and> b = b'"
proof -
  have "(p @ [CR, LF, CR]) @ LF # b = (p' @ [CR, LF, CR]) @ LF # b'" using assms(1) by simp
  from split_unique_last [OF this assms(2,3) not_newline_LF not_newline_LF] show ?thesis by simp
qed

lemma body_search:
  assumes b: "b \<noteq> []" "\<forall>c\<in>set b. not_newline c"
  shows "regex_search body_rx (p @ CRLF @ CRLF @ b) = Some (p, CRLF @ CRLF @ b, [], [b])"
proof -
  let ?s = "p @ CRLF @ CRLF @ b"
  have "rx_rel body_rx (True \<and> p = []) (CRLF @ CRLF @ b) [] [b]" using b body_rel by blast
  then have "rx_all body_rx (True \<and> p = []) (CRLF @ CRLF @ b) \<noteq> []"
    unfolding rx_all_Nil_iff by (metis append_Nil2)
  then have "rx_search body_rx True ?s \<noteq> None"
    unfolding rx_search_None_iff by blast
  then obtain p' w rest caps where m: "rx_search body_rx True ?s = Some (p', w, rest, caps)" by auto
  then have "?s = p' @ w @ rest" "rx_rel body_rx (True \<and> p' = []) w rest caps"
    using rx_search_SomeD by blast+
  then obtain b' where b': "w = CRLF @ CRLF @ b'" "rest = []" "caps = [b']"
    "\<forall>c\<in>set b'. not_newline c" "?s = p' @ CRLF @ CRLF @ b'"
    unfolding body_rel by (metis append_Nil2)
  from body_split [OF b'(5) b(2) b'(4)] b' m show ?thesis
    by (simp add: regex_search_def)
qed

lemma body_search_None:
  assumes "\<nexists>p b. s = p @ CRLF @ CRLF @ b \<and> b \<noteq> [] \<and> (\<forall>c\<in>set b. not_newline c)"
  shows "regex_search body_rx s = None"
proof -
  have "rx_all body_rx f s' = []" if "s = p @ s'" for p s' f
    unfolding rx_all_Nil_iff body_rel using assms that by auto
  then show ?thesis unfolding regex_search_def rx_search_None_iff by blast
qed

text \<open>The text after the last line break, if a blank line comes just before it.\<close>

definition last_line :: "string \<Rightarrow> string" where
  "last_line s = rev (takeWhile not_newline (rev s))"

definition stored_body :: "string \<Rightarrow> string" where
  "stored_body s = (let b = last_line s; p = take (length s - length b) s
     in if 4 \<le> length p \<and> drop (length p - 4) p = CRLF @ CRLF then b else [])"

lemma last_line_append: "\<forall>c\<in>set b. not_newline c \<Longrightarrow> last_line (p @ LF # b) = b"
  using takeWhile_append_stop [of "rev b" not_newline LF "rev p"] by (simp add: last_line_def not_newline_def)

lemma last_line_clean: "\<forall>c\<in>set (last_line s). not_newline c"
  by (auto simp: last_line_def dest: set_takeWhileD)

lemma stored_body_append:
  assumes "\<forall>c\<in>set b. not_newline c"
  shows "stored_body (p @ CRLF @ CRLF @ b) = b"
proof -
  have "last_line ((p @ [CR, LF, CR]) @ LF # b) = b" using assms by (rule last_line_append)
  then show ?thesis by (simp add: stored_body_def)
qed

lemma stored_body_search:
  "m_size body_rx (regex_search body_rx s) > 0 \<Longrightarrow> m_str (regex_search body_rx s) 1 = stored_body s"
  "m_size body_rx (regex_search body_rx s) = 0 \<Longrightarrow> stored_body s = []"
proof -
  let ?ok = "\<lambda>p b. s = p @ CRLF @ CRLF @ b \<and> b \<noteq> [] \<and> (\<forall>c\<in>set b. not_newline c)"
  have *: "regex_search body_rx s = Some (p, CRLF @ CRLF @ b, [], [b]) \<and> stored_body s = b" if "?ok p b" for p b
    using that body_search stored_body_append by blast
  {
    assume "m_size body_rx (regex_search body_rx s) > 0"
    then have "regex_search body_rx s \<noteq> None" by (cases "regex_search body_rx s") simp_all
    then have "\<exists>p b. ?ok p b" by (rule contrapos_np) (rule body_search_None)
    then obtain p b where "?ok p b" by (elim exE)
    from * [OF this] show "m_str (regex_search body_rx s) 1 = stored_body s" by (auto simp: m_str_def)
  next
    assume 0: "m_size body_rx (regex_search body_rx s) = 0"
    show "stored_body s = []"
    proof (rule ccontr)
      assume ne: "stored_body s \<noteq> []"
      let ?b = "last_line s" and ?p = "take (length s - length (last_line s)) s"
      have b: "?b \<noteq> []" "4 \<le> length ?p" "drop (length ?p - 4) ?p = CRLF @ CRLF"
        using ne by (simp_all add: stored_body_def Let_def split: if_splits)
      have "suffix ?b s" unfolding last_line_def suffix_def
        by (metis rev_append rev_rev_ident takeWhile_dropWhile_id)
      then have "s = ?p @ ?b" unfolding suffix_def
        by (metis append_eq_conv_conj length_append add_diff_cancel_right')
      also have "?p = take (length ?p - 4) ?p @ CRLF @ CRLF"
        using b(3) by (metis append_take_drop_id)
      finally have "?ok (take (length ?p - 4) ?p) ?b" using b(1) last_line_clean by auto
      from * [OF this] 0 show False by auto
    qed
  }
qed

subsection \<open>The whole parser\<close>

text \<open>Where the URI is cut: at the last question mark that does not come first.\<close>

definition cut_query :: "string \<Rightarrow> string \<times> string option" where
  "cut_query u = (if CHR ''?'' \<in> set (tl u)
     then (let q = rev (takeWhile (\<lambda>c. c \<noteq> CHR ''?'') (rev u)) in (take (length u - length q - 1) u, Some q))
     else (u, None))"

lemma cut_query_append:
  assumes "a \<noteq> []" "CHR ''?'' \<notin> set q"
  shows "cut_query (a @ CHR ''?'' # q) = (a, Some q)"
proof -
  have "takeWhile (\<lambda>c. c \<noteq> CHR ''?'') (rev q @ CHR ''?'' # rev a) = rev q"
    using assms(2) by (intro takeWhile_append_stop) auto
  then show ?thesis using assms(1) by (simp add: cut_query_def Let_def)
qed

lemma cut_query_cases:
  obtains "cut_query u = (u, None)" "CHR ''?'' \<notin> set (tl u)"
  | a q where "u = a @ CHR ''?'' # q" "a \<noteq> []" "CHR ''?'' \<notin> set q" "cut_query u = (a, Some q)"
proof (cases "CHR ''?'' \<in> set (tl u)")
  case False
  then show ?thesis using that(1) by (simp add: cut_query_def)
next
  case True
  then obtain b q where bq: "tl u = b @ CHR ''?'' # q" "CHR ''?'' \<notin> set q"
    using split_list_last by metis
  with True have "u = (hd u # b) @ CHR ''?'' # q" by (cases u) auto
  then show ?thesis using that(2) [of "hd u # b" q] bq(2) cut_query_append [of "hd u # b" q] by simp
qed

lemma long_query_cut: "long_query u \<longleftrightarrow> snd (cut_query u) \<noteq> None \<and> local_capacity < length (fst (cut_query u))"
proof (cases rule: cut_query_cases [of u])
  case 1
  have "set (drop (Suc local_capacity) u) \<subseteq> set (tl u)"
    using set_drop_subset [of local_capacity "tl u"] by (simp add: drop_Suc)
  then show ?thesis using 1 by (auto simp: long_query_def)
next
  case (2 a q)
  then show ?thesis using set_drop_subset [of "local_capacity - length a" q]
    by (auto simp: long_query_def drop_Cons')
qed

lemma parse_query_string_eq:
  assumes "list_all not_newline (uri r)"
  shows "parse_query_string r = (True, case cut_query (uri r) of
      (a, None) \<Rightarrow> r
    | (a, Some q) \<Rightarrow> r\<lparr>uri := a, freed_read := local_capacity < length a,
        query_string := insert_matches (query_string r) (regex_iterate param_rx True q)\<rparr>)"
proof (cases rule: cut_query_cases [of "uri r"])
  case 1
  then show ?thesis by (simp add: parse_query_string_def query_search_None)
next
  case (2 a q)
  with assms have "regex_search query_rx (uri r) = Some ([], uri r, [], [a, q])"
    using query_search [of a q] by (simp add: list_all_iff)
  then show ?thesis using 2 by (simp add: parse_query_string_def Let_def)
qed

lemma parse_headers_fst [simp]: "fst (parse_headers s r) = True"
  by (simp add: parse_headers_def)

lemma parse_body_eq: "request_body r = [] \<Longrightarrow> parse_body s r = (True, r\<lparr>request_body := stored_body s\<rparr>)"
  using stored_body_search [of s] by (simp add: parse_body_def Let_def)

lemma new_request_ok:
  assumes ok: "status_line_ok m u d1 d2" and data: "data = status_line m u d1 d2 @ rest"
  shows "new_request data beyond =
    \<lparr>raw_request = data, raw_beyond = beyond, request_size = length data, http_method = m,
     uri = fst (cut_query u),
     request_headers = insert_matches um_empty (regex_iterate header_rx True data),
     request_body = stored_body data,
     query_string = (case snd (cut_query u) of None \<Rightarrow> um_empty
        | Some q \<Rightarrow> insert_matches um_empty (regex_iterate param_rx True q)),
     valid = True, freed_read = long_query u\<rparr>"
proof -
  have cut: "cut_query u = (a, None) \<Longrightarrow> a = u" for a by (simp add: cut_query_def Let_def split: if_splits)
  have u: "list_all not_newline u" using ok by (simp add: status_line_ok_def)
  have s: "regex_search status_line_rx data = Some ([], status_line m u d1 d2, rest, [m, u, [d1, CHR ''.'', d2]])"
    unfolding data using ok by (rule status_line_search)
  obtain a qo where c: "cut_query u = (a, qo)" by (cases "cut_query u")
  with cut have a: "qo = None \<Longrightarrow> a = u" by simp
  have long: "long_query u \<longleftrightarrow> qo \<noteq> None \<and> local_capacity < length a" using long_query_cut [of u] c by simp
  show ?thesis
    using u a by (cases qo) (simp_all add: new_request_def parse_request_def parse_status_line_def s
        parse_query_string_eq parse_headers_def parse_body_eq c long)
qed

lemma new_request_invalid:
  assumes "\<nexists>m u d1 d2 rest. status_line_ok m u d1 d2 \<and> data = status_line m u d1 d2 @ rest"
  shows "new_request data beyond =
    \<lparr>raw_request = data, raw_beyond = beyond, request_size = length data, http_method = '''',
     uri = '''', request_headers = um_empty, request_body = '''', query_string = um_empty, valid = False,
     freed_read = False\<rparr>"
  using status_line_search_None [OF assms]
  by (simp add: new_request_def parse_request_def parse_status_line_def)

lemma new_request_cases:
  obtains m u d1 d2 rest where "status_line_ok m u d1 d2" "data = status_line m u d1 d2 @ rest"
  | "\<nexists>m u d1 d2 rest. status_line_ok m u d1 d2 \<and> data = status_line m u d1 d2 @ rest"
  by blast


text \<open>The two facts that callers use.\<close>

lemma new_request_flags:
  assumes "status_line_ok m u d1 d2" "data = status_line m u d1 d2 @ rest"
  shows "is_valid (new_request data beyond)" "freed_read (new_request data beyond) = long_query u"
  using assms by (simp_all add: new_request_ok is_valid_def)

lemma invalid_not_freed: "\<not> is_valid (new_request data beyond) \<Longrightarrow> \<not> freed_read (new_request data beyond)"
  by (cases rule: new_request_cases [of data]) (simp_all add: new_request_ok new_request_invalid is_valid_def)

text \<open>
  The URI of a valid request is the target cut at its last question mark (one that comes first
  does not count), and the URI of an invalid request is empty.
\<close>

theorem request_uri:
  "status_line_ok m u d1 d2 \<Longrightarrow>
     get_uri (new_request (status_line m u d1 d2 @ rest) beyond) =
       (if CHR ''?'' \<in> set (tl u) then take (length u - length (takeWhile (\<lambda>c. c \<noteq> CHR ''?'') (rev u)) - 1) u
        else u) \<and>
     get_method (new_request (status_line m u d1 d2 @ rest) beyond) = m"
  by (simp add: new_request_ok [OF _ refl] get_uri_def get_method_def cut_query_def Let_def)

lemma sample_line_ok: "status_line_ok ''GET'' ''/a?b?c=d'' (CHR ''1'') (CHR ''1'')"
  by (simp add: status_line_ok_def char_class_simps)

lemma request_uri_witness:
  "get_uri (new_request (status_line ''GET'' ''/a?b?c=d'' (CHR ''1'') (CHR ''1'') @ CRLF) []) = ''/a?b''"
  using request_uri [OF sample_line_ok, of CRLF "[]"] by simp

text \<open>
  The body of a valid request is the text after its last line break when a blank line comes
  just before it, and is empty otherwise: a body of several lines is lost.
\<close>

theorem request_body_exact:
  "get_body (new_request data beyond) =
     (if is_valid (new_request data beyond) then stored_body data else [])"
proof (cases rule: new_request_cases [of data])
  case (1 m u d1 d2 rest)
  then show ?thesis by (simp add: new_request_ok get_body_def is_valid_def)
next
  case 2
  then show ?thesis by (simp add: new_request_invalid get_body_def is_valid_def)
qed

lemma um_insert_all_values:
  "list_all (\<lambda>(k, v). P v) m \<Longrightarrow> list_all (\<lambda>(k, v). P v) kvs \<Longrightarrow>
     list_all (\<lambda>(k, v). P v) (foldl (\<lambda>m (k, v). um_insert m k v) m kvs)"
  by (induction kvs arbitrary: m) (auto simp: um_insert_def split: option.splits)

text \<open>
  Every value the query parser stores has exactly one character (the lazy repetition that is
  to read it stops at once), whatever the request.
\<close>

theorem query_values_single:
  "list_all (\<lambda>(k, v). length v = 1) (query_string (new_request data beyond))"
proof (cases rule: new_request_cases [of data])
  case (1 m u d1 d2 rest)
  have "list_all (\<lambda>(k, v). length v = 1) (map (\<lambda>c. (c ! 0, c ! 1)) (regex_iterate param_rx True q))" for q
    using param_iterate_single by (auto simp: list_all_iff)
  then show ?thesis using 1 um_insert_all_values [of "\<lambda>v. length v = 1" "[]"]
    by (auto simp: new_request_ok insert_matches_def um_empty_def split: option.split)
next
  case 2
  then show ?thesis by (simp add: new_request_invalid um_empty_def)
qed

text \<open>
  A query \<open>k1=c1&k2=c2&...\<close> with one-character values reads back, the first value of a
  repeated name winning.
\<close>

theorem query_roundtrip:
  assumes "status_line_ok m (a @ CHR ''?'' # query_text ps) d1 d2" "a \<noteq> []"
    and "list_all param_ok ps" "CHR ''?'' \<notin> set (query_text ps)"
  shows "get_query_string_param
      (new_request (status_line m (a @ CHR ''?'' # query_text ps) d1 d2 @ rest) beyond) k =
    (case map_of ps k of None \<Rightarrow> [] | Some c \<Rightarrow> [c])"
proof -
  have "map_of (map (\<lambda>(k, c). (k, [c])) ps) k = map_option (\<lambda>c. [c]) (map_of ps k)"
    by (induction ps) auto
  then show ?thesis
    unfolding new_request_ok [OF assms(1) refl] get_query_string_param_def um_get_def
    using assms(2-4) by (simp add: cut_query_append insert_matches_def query_iterate [unfolded One_nat_def] um.find_insert_all
        um_simps split: option.split)
qed

lemma query_roundtrip_witness:
  "get_query_string_param
     (new_request (status_line ''GET'' (''/a'' @ CHR ''?'' # query_text [(''x'', CHR ''1''), (''yz'', CHR ''2'')])
        (CHR ''1'') (CHR ''1'') @ CRLF) []) ''yz'' = ''2''"
  by (subst query_roundtrip) (simp_all add: status_line_ok_def param_ok_def char_class_simps)

subsection \<open>Headers and the round trip\<close>

lemma header_rx_stop: "LF \<notin> set b \<Longrightarrow> CR \<notin> set b \<Longrightarrow> rx_search header_rx f (LF # CR # LF # b) = None"
proof -
  assume b: "LF \<notin> set b" "CR \<notin> set b"
  have "rx_all header_rx f' s' = []" if "LF # CR # LF # b = p @ s'" for p s' f'
  proof -
    have "\<not> (\<exists>n v rest. s' = LF # n @ CHR '':'' # CHR '' '' # v @ CR # rest \<and> n \<noteq> [] \<and>
        (\<forall>c\<in>set n. not_newline c))"
    proof
      assume "\<exists>n v rest. s' = LF # n @ CHR '':'' # CHR '' '' # v @ CR # rest \<and> n \<noteq> [] \<and>
        (\<forall>c\<in>set n. not_newline c)"
      then obtain n v rest where s': "s' = LF # n @ CHR '':'' # CHR '' '' # v @ CR # rest" "n \<noteq> []"
        "\<forall>c\<in>set n. not_newline c" by blast
      from that consider "p = []" | "s' = CR # LF # b" | "s' = LF # b" | "\<exists>p'. b = p' @ s'"
        by (auto simp: Cons_eq_append_conv)
      then show False
      proof cases
        case 1
        with that s' have "CR # LF # b = n @ CHR '':'' # CHR '' '' # v @ CR # rest" by simp
        then show False using s'(2,3) by (cases n) (auto simp: not_newline_def)
      next
        case 4
        then show False using s'(1) b by auto
      qed (use s' b in auto)
    qed
    then show ?thesis unfolding rx_all_Nil_iff header_rel by fastforce
  qed
  then show ?thesis unfolding rx_search_None_iff by blast
qed

lemma regex_iterate_skip:
  assumes "rx_progress r"
    and "rx_search r f (pre @ t) = map_option (\<lambda>(p, m). (pre @ p, m)) (rx_search r False t)"
  shows "regex_iterate r f (pre @ t) = regex_iterate r False t"
proof (cases "rx_search r False t")
  case None
  then show ?thesis using assms(2) by (simp add: regex_iterate_None)
next
  case (Some x)
  obtain p w rest caps where x: "x = (p, w, rest, caps)" by (cases x) auto
  have *: "rx_search r f (pre @ t) = Some (pre @ p, w, rest, caps)" using assms(2) Some x by simp
  show ?thesis
    using regex_iterate_Some [OF assms(1) *] regex_iterate_Some [OF assms(1) Some [unfolded x]] by simp
qed

lemma headers_search:
  assumes "list_all header_ok hs" "LF \<notin> set b" "CR \<notin> set b" "status_line_ok m u d1 d2"
  shows "regex_iterate header_rx True (status_line m u d1 d2 @ headers_text hs @ CRLF @ b) =
    map (\<lambda>(n, v). [n, v]) hs"
proof -
  define pre where "pre = m @ '' '' @ u @ '' HTTP/'' @ [d1, CHR ''.'', d2, CR]"
  have "list_all not_newline m" "list_all not_newline u" "not_newline d1" "not_newline d2"
    using assms(4) by (auto simp: status_line_ok_def list_all_iff word_not_newline digit_not_newline)
  then have pre: "LF \<notin> set pre" "pre \<noteq> []"
    unfolding pre_def by (auto simp: list_all_iff not_newline_LF)
  have eq: "status_line m u d1 d2 @ headers_text hs @ CRLF @ b = pre @ (LF # headers_text hs @ CRLF @ b)"
    by (simp add: pre_def status_line_def)
  have it: "regex_iterate header_rx True (pre @ t) = regex_iterate header_rx False t" for t
    by (rule regex_iterate_skip [OF header_rx_progress header_rx_skip [OF pre]])
  show ?thesis unfolding eq it headers_iterate [OF assms(1)]
    using header_rx_stop [OF assms(2,3)] by (simp add: regex_iterate_None)
qed

lemma head_ends: "\<exists>p. status_line m u d1 d2 @ headers_text hs = p @ CRLF"
proof (cases hs rule: rev_cases)
  case Nil
  then show ?thesis by (auto simp: status_line_def headers_text_def)
next
  case (snoc hs' h)
  then show ?thesis by (cases h) (auto simp: headers_text_def)
qed


definition sample_request :: request where
  "sample_request = new_request (status_line ''POST'' ''/api?p=1'' (CHR ''1'') (CHR ''1'') @
     headers_text [(''Host'', ''a:80''), (''X: y'', ''z'')] @ CRLF @ ''a=1'') []"


end
