(* ===== verification/Response.thy ===== *)
theory Response
  imports Unordered_Map
begin

text \<open>
  \<open>src/response.cc\<close>, \<open>include/response.h\<close> and the table of \<open>include/response_codes.h\<close>: the
  response object and its serialisation.

  The serialiser is compared with a reader for the HTTP message format (\<open>read_response\<close>, written
  here as the specification of what a client does): reading a serialised response gives back its
  status line, its headers and its body.
\<close>

record response =
  status_code :: "32 word"
  response_headers :: "(string, string) umap"
  response_body :: string
  response_out :: string

definition response_codes :: "(32 word, string) umap" where
  "response_codes =
     [(200, ''OK''), (201, ''Created''), (303, ''See Other''), (400, ''Bad Request''),
      (404, ''Not Found''), (405, ''Method Not Allowed''), (500, ''Internal Server Error'')]"

definition new_response :: "32 word \<Rightarrow> string \<Rightarrow> response" where
  "new_response sc body =
     \<lparr>status_code = sc, response_headers = um_empty, response_body = body, response_out = ''''\<rparr>"

definition get_status_code :: "response \<Rightarrow> 32 word" where
  "get_status_code r = status_code r"

definition get_header :: "response \<Rightarrow> string \<Rightarrow> string" where
  "get_header r name = um_get (response_headers r) name"

definition get_body :: "response \<Rightarrow> string" where
  "get_body r = response_body r"

definition set_status_code :: "32 word \<Rightarrow> response \<Rightarrow> response" where
  "set_status_code sc r = r\<lparr>status_code := sc\<rparr>"

definition set_header :: "string \<Rightarrow> string \<Rightarrow> response \<Rightarrow> response" where
  "set_header h_name h_value r =
     r\<lparr>response_headers := um_assign (response_headers r) h_name h_value\<rparr>"

definition set_body :: "string \<Rightarrow> response \<Rightarrow> response" where
  "set_body body r = r\<lparr>response_body := body\<rparr>"

definition get_status_word :: "32 word \<Rightarrow> string" where
  "get_status_word status = (case um_find response_codes status of Some w \<Rightarrow> w | None \<Rightarrow> '''')"

definition generate_status_line :: "response \<Rightarrow> string" where
  "generate_status_line r =
     ''HTTP/1.1 '' @ to_dec (unat (status_code r)) @ '' '' @ get_status_word (status_code r) @ CRLF"

definition header_line :: "string \<times> string \<Rightarrow> string" where
  "header_line h = fst h @ '': '' @ snd h @ CRLF"

definition generate_header_lines :: "response \<Rightarrow> string" where
  "generate_header_lines r = concat (map header_line (response_headers r)) @ CRLF"

text \<open>\<open>generate_response\<close> also stores what it returns in the object.\<close>

definition generate_response :: "response \<Rightarrow> response \<times> string" where
  "generate_response r =
     (let output = generate_status_line r @ generate_header_lines r @ response_body r
      in (r\<lparr>response_out := output\<rparr>, output))"

definition response_ok :: "response \<Rightarrow> bool" where
  "response_ok r \<longleftrightarrow> um_ok (response_headers r)"

lemmas response_simps =
  new_response_def get_status_code_def get_header_def get_body_def set_status_code_def
  set_header_def set_body_def

lemma generate_response_status [simp]: "get_status_code (fst (generate_response resp)) = get_status_code resp"
  by (simp add: generate_response_def get_status_code_def Let_def)

lemma new_response_ok [simp]: "response_ok (new_response sc body)"
  by (simp add: response_ok_def new_response_def um_intros)

lemma set_header_ok [simp]: "response_ok r \<Longrightarrow> response_ok (set_header n v r)"
  by (simp add: response_ok_def set_header_def um_intros)

lemma set_body_ok [simp]: "response_ok (set_body b r) = response_ok r"
  by (simp add: response_ok_def set_body_def)

lemma set_header_fields [simp]:
  "status_code (set_header n v r) = status_code r"
  "response_body (set_header n v r) = response_body r"
  by (simp_all add: set_header_def)

lemma set_body_fields [simp]:
  "status_code (set_body b r) = status_code r"
  "response_body (set_body b r) = b"
  "get_header (set_body b r) q = get_header r q"
  by (simp_all add: set_body_def get_header_def)

lemma get_set_header [simp]:
  "get_header (set_header n v r) q = (if q = n then v else get_header r q)"
  by (simp add: get_header_def set_header_def um_get_def um_simps)

lemma get_header_new [simp]: "get_header (new_response sc b) q = ''''"
  by (simp add: get_header_def new_response_def um_get_def um_simps)

lemma new_response_fields [simp]:
  "status_code (new_response sc b) = sc"
  "response_body (new_response sc b) = b"
  by (simp_all add: new_response_def)

subsection \<open>Setting and reading headers\<close>

lemma set_headers_fold:
  "foldl (\<lambda>r (n, v). set_header n v r) r hs =
     r\<lparr>response_headers := foldl (\<lambda>m (n, v). um_assign m n v) (response_headers r) hs\<rparr>"
  by (induction hs arbitrary: r) (auto simp: set_header_def)

text \<open>
  After any sequence of \<open>set_header\<close> calls on a new response, \<open>get_header\<close> returns the value
  set last for that name, and the empty string for a name never set; the status code and the body
  are those given to the constructor; no name is stored twice.
\<close>

theorem set_header_sequence:
  "get_header (foldl (\<lambda>r (n, v). set_header n v r) (new_response sc body) hs) q =
     (case map_of (rev hs) q of Some v \<Rightarrow> v | None \<Rightarrow> '''') \<and>
   get_status_code (foldl (\<lambda>r (n, v). set_header n v r) (new_response sc body) hs) = sc \<and>
   get_body (foldl (\<lambda>r (n, v). set_header n v r) (new_response sc body) hs) = body \<and>
   response_ok (foldl (\<lambda>r (n, v). set_header n v r) (new_response sc body) hs)"
  unfolding set_headers_fold
  by (simp add: response_simps um_get_def um.find_assign_all um.find_empty response_ok_def
      um_intros split: option.split)

subsection \<open>Reading a serialised response\<close>

text \<open>The reader: a line ends at CR LF, a header is split at its first colon and space.\<close>

fun read_line :: "string \<Rightarrow> (string \<times> string) option" where
  "read_line [] = None"
| "read_line (c # cs) =
     (if c = CR then (case cs of [] \<Rightarrow> None | d # t \<Rightarrow> if d = LF then Some ([], t) else None)
      else map_option (\<lambda>(l, t). (c # l, t)) (read_line cs))"

fun split_colon :: "string \<Rightarrow> (string \<times> string) option" where
  "split_colon [] = None"
| "split_colon (c # cs) =
     (if c = CHR '':'' then (case cs of [] \<Rightarrow> None | d # v \<Rightarrow> if d = CHR '' '' then Some ([], v) else None)
      else map_option (\<lambda>(n, v). (c # n, v)) (split_colon cs))"

lemma read_line_length: "read_line s = Some (l, t) \<Longrightarrow> length t < length s"
  by (induction s arbitrary: l) (auto split: if_splits list.splits)

function read_headers :: "string \<Rightarrow> ((string \<times> string) list \<times> string) option" where
  "read_headers s = (case read_line s of
       None \<Rightarrow> None
     | Some (l, t) \<Rightarrow>
         if l = [] then Some ([], t)
         else (case split_colon l of
             None \<Rightarrow> None
           | Some h \<Rightarrow> map_option (\<lambda>(hs, b). (h # hs, b)) (read_headers t)))"
  by pat_completeness auto
termination
  by (relation "measure length") (auto dest: read_line_length)

declare read_headers.simps [simp del]

definition read_response :: "string \<Rightarrow> (string \<times> (string \<times> string) list \<times> string) option" where
  "read_response s = (case read_line s of
       None \<Rightarrow> None
     | Some (status, t) \<Rightarrow> map_option (\<lambda>(hs, b). (status, hs, b)) (read_headers t))"

definition no_line_break :: "string \<Rightarrow> bool" where
  "no_line_break s \<longleftrightarrow> CR \<notin> set s \<and> LF \<notin> set s"

definition headers_clean :: "(string, string) umap \<Rightarrow> bool" where
  "headers_clean hs \<longleftrightarrow> list_all (\<lambda>(n, v). no_line_break n \<and> CHR '':'' \<notin> set n \<and> no_line_break v) hs"

lemma read_line_append: "CR \<notin> set l \<Longrightarrow> read_line (l @ CR # LF # t) = Some (l, t)"
  by (induction l) auto

lemma split_colon_append: "CHR '':'' \<notin> set n \<Longrightarrow> split_colon (n @ CHR '':'' # CHR '' '' # v) = Some (n, v)"
  by (induction n) auto

lemma read_headers_lines:
  "headers_clean hs \<Longrightarrow> read_headers (concat (map header_line hs) @ CR # LF # b) = Some (hs, b)"
proof (induction hs)
  case Nil
  then show ?case by (subst read_headers.simps) simp
next
  case (Cons h hs)
  obtain n v where h: "h = (n, v)" by (cases h)
  with Cons.prems have c: "CR \<notin> set (n @ '': '' @ v)" "CHR '':'' \<notin> set n" "headers_clean hs"
    by (auto simp: headers_clean_def no_line_break_def)
  have "read_line (header_line h @ t) = Some (n @ '': '' @ v, t)" for t
    using read_line_append [OF c(1)] by (simp add: header_line_def h)
  then show ?case
    using split_colon_append [OF c(2)] Cons.IH [OF c(3)]
    by (subst read_headers.simps) (simp add: h)
qed

lemma status_word_no_break: "no_line_break (get_status_word sc)"
  by (simp add: get_status_word_def um_find_def response_codes_def no_line_break_def)

lemma to_dec_no_CR: "CR \<notin> set (to_dec n)"
  using to_dec_digits digit_not_newline by (auto simp: not_newline_def)

definition status_line_text :: "32 word \<Rightarrow> string" where
  "status_line_text sc = ''HTTP/1.1 '' @ to_dec (unat sc) @ '' '' @ get_status_word sc"

lemma read_generate_response:
  assumes "headers_clean (response_headers r)"
  shows "read_response (snd (generate_response r)) =
    Some (status_line_text (status_code r), response_headers r, response_body r)"
proof -
  have "CR \<notin> set (status_line_text (status_code r))"
    using status_word_no_break to_dec_no_CR by (auto simp: status_line_text_def no_line_break_def)
  from read_line_append [OF this] have
    "read_line (generate_status_line r @ s) = Some (status_line_text (status_code r), s)" for s
    by (simp add: status_line_text_def generate_status_line_def)
  then show ?thesis
    using read_headers_lines [OF assms]
    by (simp add: read_response_def generate_response_def generate_header_lines_def Let_def)
qed

text \<open>
  C21: a response whose header names and values have no line break (and no colon in a name) is read
  back exactly: status line, every header, and the body byte for byte, whatever bytes it has.
\<close>

theorem response_roundtrip:
  assumes "headers_clean (response_headers r)"
  shows "read_response (snd (generate_response r)) =
    Some (status_line_text (status_code r), response_headers r, response_body r)"
  using assms by (rule read_generate_response)

definition sample_response :: response where
  "sample_response = set_header ''Content-Type'' ''text/plain'' (new_response 404 (CRLF @ CRLF @ ''x''))"

theorem response_roundtrip_witness:
  "read_response (snd (generate_response sample_response)) =
     Some (''HTTP/1.1 404 Not Found'', [(''Content-Type'', ''text/plain'')], CRLF @ CRLF @ ''x'')"
proof -
  have "headers_clean (response_headers sample_response)" by code_simp
  moreover have "status_line_text (status_code sample_response) = ''HTTP/1.1 404 Not Found''"
    "response_headers sample_response = [(''Content-Type'', ''text/plain'')]"
    "response_body sample_response = CRLF @ CRLF @ ''x''"
    by code_simp+
  ultimately show ?thesis using response_roundtrip [of sample_response] by simp
qed

end
