(* ===== verification/Status_Recorder.thy ===== *)
theory Status_Recorder
  imports Prelude "HOL-Library.Sublist"
begin

text \<open>
  \<open>src/server_status_recorder.cc\<close>: the process-wide record of handled requests and registered
  routes. Every operation holds the lock of its list from beginning to end, so a run of the worker
  threads is a sequence of \<open>record_event\<close>s in which each thread's own events keep their order
  (\<open>shuffles\<close>).

  The lemmas: both lists only ever grow at the end, no event of any thread is lost or duplicated
  and each thread's entries keep their order, and the \<open>int\<close> that \<open>get_url_response_list_size\<close>
  returns is the length as long as it fits.
\<close>

record server_status_recorder =
  url_response_list :: "(string \<times> 32 word) list"
  prefix_handler_list :: "(string \<times> string) list"

definition new_recorder :: server_status_recorder where
  "new_recorder = \<lparr>url_response_list = [], prefix_handler_list = []\<rparr>"

definition request_recorder :: "string \<Rightarrow> 32 word \<Rightarrow> server_status_recorder \<Rightarrow> server_status_recorder" where
  "request_recorder url response_code r =
     r\<lparr>url_response_list := url_response_list r @ [(url, response_code)]\<rparr>"

definition prefix_recorder :: "string \<times> string \<Rightarrow> server_status_recorder \<Rightarrow> server_status_recorder" where
  "prefix_recorder prefix_handler_pair r =
     r\<lparr>prefix_handler_list := prefix_handler_list r @ [prefix_handler_pair]\<rparr>"

definition get_url_response_list :: "server_status_recorder \<Rightarrow> (string \<times> 32 word) list" where
  "get_url_response_list r = url_response_list r"

definition get_prefix_handler_list :: "server_status_recorder \<Rightarrow> (string \<times> string) list" where
  "get_prefix_handler_list r = prefix_handler_list r"

text \<open>The \<open>size_t\<close> is converted to \<open>int\<close> on return.\<close>

definition get_url_response_list_size :: "server_status_recorder \<Rightarrow> int" where
  "get_url_response_list_size r = sint (word_of_nat (length (url_response_list r)) :: 32 word)"

lemmas recorder_simps = new_recorder_def request_recorder_def prefix_recorder_def
  get_url_response_list_def get_prefix_handler_list_def

subsection \<open>Runs of several threads\<close>

datatype record_event = Ev_Request string "32 word" | Ev_Prefix string string

primrec apply_event :: "record_event \<Rightarrow> server_status_recorder \<Rightarrow> server_status_recorder" where
  "apply_event (Ev_Request u c) r = request_recorder u c r"
| "apply_event (Ev_Prefix u h) r = prefix_recorder (u, h) r"

definition run_events :: "record_event list \<Rightarrow> server_status_recorder \<Rightarrow> server_status_recorder" where
  "run_events es r = fold apply_event es r"

fun requests_of :: "record_event list \<Rightarrow> (string \<times> 32 word) list" where
  "requests_of [] = []"
| "requests_of (Ev_Request u c # es) = (u, c) # requests_of es"
| "requests_of (Ev_Prefix u h # es) = requests_of es"

fun prefixes_of :: "record_event list \<Rightarrow> (string \<times> string) list" where
  "prefixes_of [] = []"
| "prefixes_of (Ev_Request u c # es) = prefixes_of es"
| "prefixes_of (Ev_Prefix u h # es) = (u, h) # prefixes_of es"

lemma run_events_lists:
  "url_response_list (run_events es r) = url_response_list r @ requests_of es"
  "prefix_handler_list (run_events es r) = prefix_handler_list r @ prefixes_of es"
  by (induction es arbitrary: r rule: requests_of.induct) (simp_all add: run_events_def recorder_simps)

lemma requests_of_shuffle:
  "es \<in> shuffles es1 es2 \<Longrightarrow> requests_of es \<in> shuffles (requests_of es1) (requests_of es2)"
proof (induction es1 es2 arbitrary: es rule: shuffles.induct)
  case (3 x xs y ys)
  from "3.prems" consider zs where "es = x # zs" "zs \<in> shuffles xs (y # ys)"
    | zs where "es = y # zs" "zs \<in> shuffles (x # xs) ys" by auto
  then show ?case
  proof cases
    case 1
    with "3.IH"(1) show ?thesis
      by (cases x) (auto intro: Cons_in_shuffles_leftI)
  next
    case 2
    with "3.IH"(2) show ?thesis
      by (cases y) (auto intro: Cons_in_shuffles_rightI)
  qed
qed simp_all

lemma prefixes_of_shuffle:
  "es \<in> shuffles es1 es2 \<Longrightarrow> prefixes_of es \<in> shuffles (prefixes_of es1) (prefixes_of es2)"
proof (induction es1 es2 arbitrary: es rule: shuffles.induct)
  case (3 x xs y ys)
  from "3.prems" consider zs where "es = x # zs" "zs \<in> shuffles xs (y # ys)"
    | zs where "es = y # zs" "zs \<in> shuffles (x # xs) ys" by auto
  then show ?case
  proof cases
    case 1
    with "3.IH"(1) show ?thesis
      by (cases x) (auto intro: Cons_in_shuffles_leftI)
  next
    case 2
    with "3.IH"(2) show ?thesis
      by (cases y) (auto intro: Cons_in_shuffles_rightI)
  qed
qed simp_all

text \<open>
  Whatever the interleaving of two threads, the recorded lists are an interleaving of the
  lists each thread records alone, appended to what was there: no update is lost, none is repeated,
  and each thread's entries stay in order.
\<close>

theorem recorder_interleaving:
  assumes "es \<in> shuffles es1 es2"
  shows "url_response_list (run_events es r) \<in> (\<lambda>l. url_response_list r @ l) `
      shuffles (url_response_list (run_events es1 new_recorder)) (url_response_list (run_events es2 new_recorder))
    \<and> prefix_handler_list (run_events es r) \<in> (\<lambda>l. prefix_handler_list r @ l) `
      shuffles (prefix_handler_list (run_events es1 new_recorder)) (prefix_handler_list (run_events es2 new_recorder))"
  using requests_of_shuffle [OF assms] prefixes_of_shuffle [OF assms]
  by (simp add: run_events_lists new_recorder_def)

theorem recorder_interleaving_witness:
  "url_response_list (run_events [Ev_Request ''/a'' 200, Ev_Request ''/c'' 404, Ev_Request ''/b'' 200] new_recorder) \<in>
     (\<lambda>l. [] @ l) ` shuffles [(''/a'', 200), (''/b'', 200)] [(''/c'', 404)]"
  using recorder_interleaving [of "[Ev_Request ''/a'' 200, Ev_Request ''/c'' 404, Ev_Request ''/b'' 200]"
      "[Ev_Request ''/a'' 200, Ev_Request ''/b'' 200]" "[Ev_Request ''/c'' 404]" new_recorder]
  by (simp add: run_events_lists) (simp add: new_recorder_def)

subsection \<open>Growth and the size as an \<open>int\<close>\<close>

definition grows :: "server_status_recorder \<Rightarrow> server_status_recorder \<Rightarrow> bool" where
  "grows r r' \<longleftrightarrow> prefix (url_response_list r) (url_response_list r') \<and>
     prefix (prefix_handler_list r) (prefix_handler_list r')"

lemma grows_refl [simp]: "grows r r"
  by (simp add: grows_def)

lemma grows_trans: "grows r r' \<Longrightarrow> grows r' r'' \<Longrightarrow> grows r r''"
  by (auto simp: grows_def intro: prefix_order.trans)

lemma grows_run: "grows r (run_events es r)"
  by (simp add: grows_def run_events_lists)

lemma sint_of_nat_small: "n < 2 ^ 31 \<Longrightarrow> sint (word_of_nat n :: 32 word) = int n"
  by (simp add: signed_of_nat signed_take_bit_int_eq_self)

lemma size_small:
  "length (url_response_list r) < 2 ^ 31 \<Longrightarrow>
     get_url_response_list_size r = int (length (url_response_list r))"
  unfolding get_url_response_list_size_def by (rule sint_of_nat_small)

lemma sint_of_nat_large:
  assumes "2 ^ 31 \<le> n" "n < 2 ^ 32"
  shows "sint (word_of_nat n :: 32 word) = int n - 2 ^ 32"
  using assms by (simp add: signed_of_nat signed_take_bit_eq_take_bit_shift take_bit_eq_mod
      mod_pos_geq mod_pos_pos_trivial)

end
