(* ===== verification/Handlers.thy ===== *)
theory Handlers
  imports Request_Props Response Status_Recorder
begin

text \<open>
  The interface of \<open>include/route_handler.h\<close> and the handlers without a configuration of their own:
  \<open>src/default_handler.cc\<close>, \<open>src/echo_handler.cc\<close>, \<open>src/health_handler.cc\<close> and
  \<open>src/status_handler.cc\<close>.

  The locale \<open>route_handler\<close> is what the router and the session rely on: a handler that returns
  gives a response whose status has a reason phrase and whose header names are distinct;
  \<open>typed_handler\<close> adds a content type. Each handler is an interpretation.
\<close>

subsection \<open>The interface\<close>

locale route_handler =
  fixes handle_request :: "'s \<Rightarrow> request \<Rightarrow> response result"
  assumes handle_ok: "handle_request s req = Inr resp \<Longrightarrow> response_ok resp"
    and handle_known: "handle_request s req = Inr resp \<Longrightarrow> get_status_word (get_status_code resp) \<noteq> ''''"
begin

text \<open>What the session writes starts with a complete status line.\<close>

lemma written_status_line:
  assumes "handle_request s req = Inr resp"
  shows "\<exists>w t. w \<noteq> '''' \<and> snd (generate_response resp) =
    ''HTTP/1.1 '' @ to_dec (unat (get_status_code resp)) @ '' '' @ w @ CRLF @ t"
  using handle_known [OF assms]
  by (auto simp: generate_response_def generate_status_line_def get_status_code_def Let_def)

lemma default_header_ok:
  "handle_request s req = Inr resp \<Longrightarrow> response_ok (foldl (\<lambda>r (n, v). set_header n v r) resp hs)"
proof (induction hs rule: rev_induct)
  case (snoc h hs)
  then show ?case by (cases h) simp
qed (simp add: handle_ok)

end

locale typed_handler = route_handler +
  assumes handle_typed: "handle_request s req = Inr resp \<Longrightarrow> Response.get_header resp ''Content-Type'' \<noteq> ''''"
begin

text \<open>A client that reads the response back finds a content type.\<close>

lemma read_back_typed:
  assumes "handle_request s req = Inr resp" "headers_clean (response_headers resp)"
  shows "\<exists>hs b v. read_response (snd (generate_response resp)) =
    Some (status_line_text (status_code resp), hs, b) \<and> (''Content-Type'', v) \<in> set hs \<and> v \<noteq> ''''"
proof -
  obtain v where "um_find (response_headers resp) ''Content-Type'' = Some v" "v \<noteq> ''''"
    using handle_typed [OF assms(1)]
    by (auto simp: Response.get_header_def um_get_def split: option.splits)
  then have "(''Content-Type'', v) \<in> set (response_headers resp)"
    by (auto simp: um_find_def dest: map_of_SomeD)
  with \<open>v \<noteq> []\<close> show ?thesis
    unfolding read_generate_response [OF assms(2)] by auto
qed

end

lemma status_words [simp]:
  "get_status_word 200 = ''OK''" "get_status_word 400 = ''Bad Request''"
  "get_status_word 404 = ''Not Found''" "get_status_word 405 = ''Method Not Allowed''"
  "get_status_word 500 = ''Internal Server Error''"
  by (simp_all add: get_status_word_def um_find_def response_codes_def)

lemmas handler_simps = Response.get_body_def get_status_code_def

subsection \<open>Default, echo and health\<close>

definition generate_404_response :: "request \<Rightarrow> response" where
  "generate_404_response req = set_header ''Content-Type'' ''text/plain''
     (new_response 404 (''The requested resource at '' @ get_uri req @ '' could not be found!''))"

definition default_handle_request :: "request \<Rightarrow> response" where
  "default_handle_request req = generate_404_response req"

text \<open>The seconds the echo handler sleeps before it builds its response.\<close>

definition echo_sleep :: "request \<Rightarrow> nat" where
  "echo_sleep req = (if Request.get_header req ''Thread-Sleep'' \<noteq> '''' then 5 else 0)"

definition generate_echo_response :: "request \<Rightarrow> response" where
  "generate_echo_response req = set_header ''Content-Type'' ''text/plain''
     (new_response 200 (c_string (get_raw_request req)))"

definition echo_handle_request :: "request \<Rightarrow> response" where
  "echo_handle_request req = generate_echo_response req"

definition generate_200_response :: "request \<Rightarrow> response" where
  "generate_200_response req = set_header ''Content-Type'' ''text/plain'' (new_response 200 ''OK'')"

definition health_handle_request :: "request \<Rightarrow> response" where
  "health_handle_request req =
     (if get_uri req = ''/health'' then generate_200_response req
      else set_header ''Content-Type'' ''text/plain''
        (new_response 400 (''Requested file was not found!'' @ [LF])))"

lemmas [handler_defs] = generate_404_response_def default_handle_request_def
  generate_echo_response_def echo_handle_request_def generate_200_response_def health_handle_request_def

interpretation default_h: typed_handler "\<lambda>_ req. Inr (default_handle_request req)"
  by unfold_locales (auto simp: handler_defs handler_simps)

interpretation echo_h: typed_handler "\<lambda>_ req. Inr (echo_handle_request req)"
  by unfold_locales (auto simp: handler_defs handler_simps)

interpretation health_h: typed_handler "\<lambda>_ req. Inr (health_handle_request req)"
  by unfold_locales (auto simp: handler_defs handler_simps split: if_splits)

subsection \<open>Status\<close>

definition status_rows :: "(string \<times> string) list \<Rightarrow> string" where
  "status_rows l = concat (map (\<lambda>(a, b).
     ''<tr><td>'' @ a @ ''</td>'' @ ''<td>'' @ b @ ''</td></tr>'') l)"

definition status_body :: "int \<Rightarrow> (string \<times> 32 word) list \<Rightarrow> (string \<times> string) list \<Rightarrow> string" where
  "status_body num_request url_responses prefix_handlers =
     ''<!DOCTYPE html><html><head></head><body><h1>Server Status</h1><p>Number of request: ''
     @ to_dec (nat num_request)
     @ ''</p>''
     @ ''<table>''
     @ ''<tr><th>URL</th><th>Response Code</th></tr>''
     @ (if num_request = 0 then ''</tr><td colspan='2'>No Request</td><tr>''
        else status_rows (map (\<lambda>(u, c). (u, to_dec (unat c))) url_responses))
     @ ''</table>''
     @ ''<p>URL Prefix and Handler Matching</p>''
     @ ''<table>''
     @ ''<tr><th>Prefix</th><th>Handler</th></tr>''
     @ (if prefix_handlers = [] then ''</tr><td colspan= '2'>Empty</td><tr>''
        else status_rows prefix_handlers)
     @ ''</table></body></html>''"

definition generate_status_response :: "request \<Rightarrow> string \<Rightarrow> response" where
  "generate_status_response req body = set_body body
     (set_header ''Content-Type'' ''text/html'' (new_response 200 ''Status message goes here.''))"

text \<open>
  The handler takes the lock of the recorder three times; other threads may record in between, so
  the three reads see three states \<open>r1\<close>, \<open>r2\<close> and \<open>r3\<close>.
\<close>

definition status_handle_request ::
    "server_status_recorder \<times> server_status_recorder \<times> server_status_recorder \<Rightarrow> request \<Rightarrow> response result" where
  "status_handle_request reads req =
     (case reads of (r1, r2, r3) \<Rightarrow>
        let num_request = get_url_response_list_size r1
        in if num_request < 0 then Inl (Exit 1)
           else Inr (generate_status_response req
             (status_body num_request (get_url_response_list r2) (get_prefix_handler_list r3))))"

lemmas [handler_defs] = generate_status_response_def status_handle_request_def

interpretation status_h: typed_handler status_handle_request
  by unfold_locales (auto simp: handler_defs handler_simps Let_def split: prod.splits if_splits)

subsection \<open>Properties\<close>

text \<open>
  A client of the default handler reads a 404 whose body names the URI of its request.
\<close>

theorem default_handler_answer:
  "read_response (snd (generate_response (default_handle_request req))) =
     Some (''HTTP/1.1 404 Not Found'', [(''Content-Type'', ''text/plain'')],
       ''The requested resource at '' @ get_uri req @ '' could not be found!'')"
proof -
  have "response_headers (default_handle_request req) = [(''Content-Type'', ''text/plain'')]"
    by (simp add: handler_defs response_simps um_defs)
  moreover have "headers_clean [(''Content-Type'', ''text/plain'')]" by code_simp
  moreover have "status_line_text 404 = ''HTTP/1.1 404 Not Found''" by code_simp
  ultimately show ?thesis
    by (simp add: read_generate_response) (simp add: handler_defs)
qed

text \<open>
  The echo handler's body is the request up to its first NUL; when the request has none, the
  body goes on with the memory behind the request's copy up to the next NUL.
\<close>

theorem echo_body_exact:
  "Response.get_body (echo_handle_request (new_request data beyond)) =
     (if NUL \<in> set data then takeWhile (\<lambda>c. c \<noteq> NUL) data
      else data @ takeWhile (\<lambda>c. c \<noteq> NUL) beyond)"
proof -
  have "get_raw_request (new_request data beyond) = data @ beyond"
    by (cases rule: new_request_cases [of data]) (simp_all add: new_request_ok new_request_invalid get_raw_request_def)
  moreover have "takeWhile (\<lambda>c. c \<noteq> NUL) (data @ beyond) =
      (if NUL \<in> set data then takeWhile (\<lambda>c. c \<noteq> NUL) data else data @ takeWhile (\<lambda>c. c \<noteq> NUL) beyond)"
    by (induction data) auto
  ultimately show ?thesis
    by (simp add: handler_defs handler_simps c_string_def)
qed

lemma status_rows_in: "(a, b) \<in> set l \<Longrightarrow>
    sublist (''<tr><td>'' @ a @ ''</td>'' @ ''<td>'' @ b @ ''</td></tr>'') (status_rows l)"
proof -
  assume "(a, b) \<in> set l"
  then obtain xs ys where "l = xs @ (a, b) # ys" using split_list by metis
  then show ?thesis unfolding sublist_def status_rows_def by fastforce
qed

lemma sublist_right: "sublist x y \<Longrightarrow> sublist x (y @ z)"
  by (erule sublist_order.order_trans) simp

lemma sublist_left: "sublist x z \<Longrightarrow> sublist x (y @ z)"
  by (erule sublist_order.order_trans) simp

lemma status_body_requests:
  assumes "(u, c) \<in> set us" "n \<noteq> 0"
  shows "sublist (''<tr><td>'' @ u @ ''</td>'' @ ''<td>'' @ to_dec (unat c) @ ''</td></tr>'') (status_body n us ps)"
proof -
  have row: "sublist (''<tr><td>'' @ u @ ''</td>'' @ ''<td>'' @ to_dec (unat c) @ ''</td></tr>'')
      (status_rows (map (\<lambda>(u, c). (u, to_dec (unat c))) us))" (is "sublist ?row ?rows")
    by (rule status_rows_in) (use assms in force)
  then have here: "sublist ?row (?rows @ z)" for z by (rule sublist_right)
  show ?thesis
    unfolding status_body_def if_not_P [OF assms(2)] by (rule here | rule sublist_left)+
qed

lemma status_body_prefixes:
  assumes "(p, h) \<in> set ps"
  shows "sublist (''<tr><td>'' @ p @ ''</td>'' @ ''<td>'' @ h @ ''</td></tr>'') (status_body n us ps)"
proof -
  have row: "sublist (''<tr><td>'' @ p @ ''</td>'' @ ''<td>'' @ h @ ''</td></tr>'') (status_rows ps)"
    (is "sublist ?row ?rows") using assms by (rule status_rows_in)
  have ne: "ps \<noteq> []" using assms by auto
  from row have here: "sublist ?row (?rows @ z)" for z by (rule sublist_right)
  show ?thesis
    unfolding status_body_def if_not_P [OF ne] by (rule here | rule sublist_left)+
qed

text \<open>A page with a row for every request and every route of a record.\<close>

definition page_shows :: "server_status_recorder \<Rightarrow> string \<Rightarrow> bool" where
  "page_shows rec body \<longleftrightarrow>
    (\<forall>(u, c)\<in>set (url_response_list rec).
       sublist (''<tr><td>'' @ u @ ''</td>'' @ ''<td>'' @ to_dec (unat c) @ ''</td></tr>'') body) \<and>
    (\<forall>(p, h)\<in>set (prefix_handler_list rec).
       sublist (''<tr><td>'' @ p @ ''</td>'' @ ''<td>'' @ h @ ''</td></tr>'') body)"

lemma page_shows_grows: "grows rec rec' \<Longrightarrow> page_shows rec' body \<Longrightarrow> page_shows rec body"
  unfolding page_shows_def grows_def by (meson set_mono_prefix subsetD)

text \<open>
  Every request and every route recorded before the status handler starts is a row of the page, even
  when other threads record between the handler's three reads, as long as fewer than \<open>2^31\<close> requests
  are recorded.
\<close>

lemma status_page_complete:
  assumes "grows r1 r2" "grows r2 r3" "length (url_response_list r1) < 2 ^ 31"
  shows "\<exists>resp. status_handle_request (r1, r2, r3) req = Inr resp \<and> get_status_code resp = 200 \<and>
    page_shows r1 (Response.get_body resp)"
proof -
  let ?n = "int (length (url_response_list r1))"
  have n: "get_url_response_list_size r1 = ?n" using assms(3) by (rule size_small)
  let ?body = "status_body ?n (url_response_list r2) (prefix_handler_list r3)"
  have "sublist (''<tr><td>'' @ u @ ''</td>'' @ ''<td>'' @ to_dec (unat c) @ ''</td></tr>'') ?body"
    if "(u, c) \<in> set (url_response_list r1)" for u c
  proof (rule status_body_requests)
    show "(u, c) \<in> set (url_response_list r2)" using that assms(1) by (auto simp: grows_def dest!: set_mono_prefix)
    show "?n \<noteq> 0" using that by auto
  qed
  moreover have "sublist (''<tr><td>'' @ p @ ''</td>'' @ ''<td>'' @ h @ ''</td></tr>'') ?body"
    if "(p, h) \<in> set (prefix_handler_list r1)" for p h
  proof (rule status_body_prefixes)
    show "(p, h) \<in> set (prefix_handler_list r3)"
      using that assms(1,2) by (auto simp: grows_def dest!: set_mono_prefix)
  qed
  moreover have "status_handle_request (r1, r2, r3) req = Inr (generate_status_response req ?body)"
    by (simp add: status_handle_request_def n get_url_response_list_def get_prefix_handler_list_def)
  ultimately show ?thesis
    unfolding page_shows_def by (auto simp: generate_status_response_def handler_simps)
qed

text \<open>
  Once \<open>2^31\<close> requests are recorded the count turns negative and the status handler ends the
  process.
\<close>

theorem status_count_overflow:
  assumes "2 ^ 31 \<le> length (url_response_list r1)" "length (url_response_list r1) < 2 ^ 32"
  shows "status_handle_request (r1, r2, r3) req = Inl (Exit 1)"
  using sint_of_nat_large [OF assms] assms(2)
  by (simp add: status_handle_request_def get_url_response_list_size_def Let_def)

theorem status_count_overflow_witness:
  "status_handle_request (new_recorder\<lparr>url_response_list := replicate (2 ^ 31) (''/'', 404)\<rparr>, new_recorder, new_recorder)
     (new_request [] []) = Inl (Exit 1)"
  by (rule status_count_overflow) (simp_all add: new_recorder_def)

end
