(* ===== verification/Static_Files.thy ===== *)
theory Static_Files
  imports Handlers Config_Parser
begin

text \<open>
  \<open>src/static_file_handler.cc\<close> and the table of \<open>include/mime_types.h\<close>: serving a file named by the
  last component of the URI from the directory the configuration gives.

  The file system is a parameter: \<open>files p\<close> is the content of the stream that opening \<open>p\<close> gives, or
  \<open>None\<close> when it does not open. A null configuration pointer is \<open>None\<close>; following it is undefined.

  The lemmas: which URIs name a file, that a served path never leaves the configured directory, and
  the content type of every answer.
\<close>

type_synonym file_system = "string \<Rightarrow> string option"

definition mime_types :: "(string, string) umap" where
  "mime_types =
     [(''.txt'', ''text/plain''), (''.html'', ''text/html''), (''.htm'', ''text/html''),
      (''.jpg'', ''image/jpeg''), (''.jpeg'', ''image/jpeg''), (''.zip'', ''application/zip''),
      (''.json'', ''application/json''), (''.xml'', ''application/xml''), (''.css'', ''text/css''),
      (''.js'', ''application/javascript''), (''.ico'', ''image/x-icon'')]"

definition get_mime_type :: "string \<Rightarrow> string" where
  "get_mime_type extension = (case um_find mime_types extension of
       Some t \<Rightarrow> t | None \<Rightarrow> ''application/octet-stream'')"

definition file_rx :: rx where
  "file_rx = rx_seq [RLit ''/'', RGroup (RRep True 1 is_word),
     RGroup (RSeq (RLit ''.'') (RRep True 1 is_word)), REol]"

definition parse_file_info :: "string \<Rightarrow> string list" where
  "parse_file_info u =
     (let m = regex_search file_rx u in if m_size file_rx m = 3 then [m_str m 1, m_str m 2] else [])"

text \<open>The last statement with two tokens whose first is \<open>root\<close>.\<close>

definition get_static_file_path :: "config option \<Rightarrow> string result" where
  "get_static_file_path conf = (case conf of
       None \<Rightarrow> Inl Undefined
     | Some sts \<Rightarrow> Inr (foldl (\<lambda>output st.
         if length (tokens st) = 2 then if tokens st ! 0 = ''root'' then tokens st ! 1 else output
         else output) '''' sts))"

text \<open>The constructor; the result is \<open>path_\<close>.\<close>

definition new_static_file_handler :: "config option \<Rightarrow> string \<Rightarrow> string result" where
  "new_static_file_handler conf root_path =
     bind_res (get_static_file_path conf) (\<lambda>p. Inr (root_path @ p))"

definition file_not_found :: response where
  "file_not_found = set_header ''Content-Type'' ''text/plain''
     (new_response 404 (''The requested file could not be found!'' @ [LF]))"

definition serve_file :: "file_system \<Rightarrow> string \<Rightarrow> request \<Rightarrow> response" where
  "serve_file files path req =
     (let file_info = parse_file_info (get_uri req)
      in if length file_info < 2 then file_not_found
         else (case files (path @ ''/'' @ file_info ! 0 @ file_info ! 1) of
             None \<Rightarrow> file_not_found
           | Some f \<Rightarrow> set_header ''Content-Type'' (get_mime_type (file_info ! 1)) (new_response 200 f)))"

definition invalid_method :: "request \<Rightarrow> response" where
  "invalid_method req = set_header ''Content-Type'' ''text/plain''
     (new_response 405 ''This route only supports the HTTP GET method!'')"

definition static_handle_request :: "file_system \<Rightarrow> string \<Rightarrow> request \<Rightarrow> response" where
  "static_handle_request files path req =
     (if get_method req = ''GET'' then serve_file files path req else invalid_method req)"

lemmas [handler_defs] = file_not_found_def serve_file_def invalid_method_def static_handle_request_def

lemma get_mime_type_nonempty [simp]: "get_mime_type e \<noteq> ''''"
  by (auto simp: get_mime_type_def um_find_def mime_types_def split: option.splits if_splits)

lemma get_mime_type_clean: "headers_clean [(''Content-Type'', get_mime_type e)]"
proof -
  have "list_all (\<lambda>(x, t). headers_clean [(''Content-Type'', t)]) mime_types" by code_simp
  then have "headers_clean [(''Content-Type'', t)]" if "um_find mime_types e = Some t" for t
    using that by (auto simp: um_find_def list_all_iff dest!: map_of_SomeD)
  moreover have "headers_clean [(''Content-Type'', ''application/octet-stream'')]" by code_simp
  ultimately show ?thesis by (simp add: get_mime_type_def split: option.split)
qed

interpretation static_h: typed_handler "\<lambda>(files, path) req. Inr (static_handle_request files path req)"
  by unfold_locales (auto simp: handler_defs handler_simps Let_def split: if_splits option.splits)

subsection \<open>Which URIs name a file\<close>

definition file_uri :: "string \<Rightarrow> string \<Rightarrow> string \<Rightarrow> bool" where
  "file_uri u n e \<longleftrightarrow> n \<noteq> [] \<and> list_all is_word n \<and> (\<exists>x. e = CHR ''.'' # x \<and> x \<noteq> [] \<and> list_all is_word x) \<and>
     suffix (CHR ''/'' # n @ e) u"

lemma rx_groups_file [simp]: "rx_groups file_rx = 2"
  by (simp add: file_rx_def)

lemma file_rel:
  "rx_rel file_rx b w rest caps \<longleftrightarrow>
     (\<exists>n e. w = CHR ''/'' # n @ e \<and> rest = [] \<and> caps = [n, e] \<and> file_uri w n e)"
proof -
  have ext: "rx_rel (RSeq (RGroup (RSeq (RLit ''.'') (RRep True 1 is_word))) REol) f w2 rest c2 \<longleftrightarrow>
      (\<exists>x. w2 = CHR ''.'' # x \<and> rest = [] \<and> c2 = [w2] \<and> x \<noteq> [] \<and> (\<forall>c\<in>set x. is_word c))" for f w2 c2
  proof -
    have "rx_rel (RSeq (RGroup (RSeq (RLit ''.'') (RRep True 1 is_word))) REol) f w2 rest c2 \<longleftrightarrow>
        (\<exists>x. w2 = CHR ''.'' # x \<and> rest = [] \<and> c2 = [w2] \<and> rx_rel (RRep True 1 is_word) False x rest [])"
      by (auto simp: rx_rel_simps(5,6,8) rx_rel_seq(1)) (auto simp: rx_rel_simps(1,3))
    then show ?thesis by (auto simp: rx_rel_simps(3) Suc_le_eq)
  qed
  show ?thesis
    by (auto simp: file_rx_def rx_rel_seq(1,4) ext [unfolded One_nat_def] file_uri_def list_all_iff Suc_le_eq)
qed

lemma word_list_no: "list_all is_word w \<Longrightarrow> CHR ''/'' \<notin> set w" "list_all is_word w \<Longrightarrow> CHR ''.'' \<notin> set w"
  using word_not_slash word_not_dot unfolding list_all_iff by blast+

lemma file_uri_unique:
  assumes "file_uri u n e" "file_uri u n' e'"
  shows "n' = n \<and> e' = e"
proof -
  obtain p x where u: "u = p @ CHR ''/'' # n @ CHR ''.'' # x" and e: "e = CHR ''.'' # x"
    and w: "list_all is_word n" "list_all is_word x" using assms(1) by (auto simp: file_uri_def suffix_def)
  obtain p' x' where u': "u = p' @ CHR ''/'' # n' @ CHR ''.'' # x'" and e': "e' = CHR ''.'' # x'"
    and w': "list_all is_word n'" "list_all is_word x'" using assms(2) by (auto simp: file_uri_def suffix_def)
  have ns: "\<forall>c\<in>set (n @ CHR ''.'' # x). c \<noteq> CHR ''/''" "\<forall>c\<in>set (n' @ CHR ''.'' # x'). c \<noteq> CHR ''/''"
    using w w' by (auto dest: word_list_no)
  have "p @ CHR ''/'' # (n @ CHR ''.'' # x) = p' @ CHR ''/'' # (n' @ CHR ''.'' # x')" using u u' by simp
  from split_unique_last [OF this ns] have eq: "n @ CHR ''.'' # x = n' @ CHR ''.'' # x'" by simp
  have nd: "\<forall>c\<in>set n. c \<noteq> CHR ''.''" "\<forall>c\<in>set n'. c \<noteq> CHR ''.''"
    using w w' by (auto dest: word_list_no)
  from split_unique [OF eq nd] show ?thesis using e e' by simp
qed

lemma file_search:
  assumes "file_uri u n e"
  shows "\<exists>p. regex_search file_rx u = Some (p, CHR ''/'' # n @ e, [], [n, e])"
proof -
  obtain p where p: "u = p @ CHR ''/'' # n @ e" using assms by (auto simp: file_uri_def suffix_def)
  have "file_uri (CHR ''/'' # n @ e) n e" using assms by (auto simp: file_uri_def)
  then have "rx_rel file_rx (True \<and> p = []) (CHR ''/'' # n @ e) [] [n, e]" unfolding file_rel by blast
  then have "rx_all file_rx (True \<and> p = []) (CHR ''/'' # n @ e) \<noteq> []"
    unfolding rx_all_Nil_iff by (metis append_Nil2)
  then have "rx_search file_rx True u \<noteq> None" unfolding rx_search_None_iff p by blast
  then obtain p' w rest caps where m: "rx_search file_rx True u = Some (p', w, rest, caps)" by auto
  then have s: "u = p' @ w @ rest" "rx_rel file_rx (True \<and> p' = []) w rest caps"
    using rx_search_SomeD by blast+
  then obtain n' e' where w: "w = CHR ''/'' # n' @ e'" "rest = []" "caps = [n', e']" "file_uri w n' e'"
    unfolding file_rel by blast
  then have "file_uri u n' e'" using s(1) by (auto simp: file_uri_def suffix_def)
  from file_uri_unique [OF assms this] w m show ?thesis by (auto simp: regex_search_def)
qed

lemma file_search_None: "(\<nexists>n e. file_uri u n e) \<Longrightarrow> regex_search file_rx u = None"
proof -
  assume none: "\<nexists>n e. file_uri u n e"
  have "rx_all file_rx f s' = []" if "u = p @ s'" for p s' f
  proof -
    have "\<not> file_uri s' n e" for n e
      using none that by (auto simp: file_uri_def intro: suffix_appendI)
    then show ?thesis unfolding rx_all_Nil_iff file_rel by auto
  qed
  then show ?thesis unfolding regex_search_def rx_search_None_iff by blast
qed

lemma file_info_iff:
  "(parse_file_info u = [n, e] \<longleftrightarrow> file_uri u n e) \<and> (parse_file_info u = [] \<longleftrightarrow> (\<nexists>n e. file_uri u n e))"
proof (cases "\<exists>n e. file_uri u n e")
  case True
  then obtain n' e' where f: "file_uri u n' e'" by blast
  then have "parse_file_info u = [n', e']"
    using file_search by (fastforce simp: parse_file_info_def)
  then show ?thesis using f file_uri_unique by auto
next
  case False
  then show ?thesis by (auto simp: parse_file_info_def file_search_None)
qed

text \<open>
  The static handler takes a URI to name a file exactly when it ends in a slash, a word, a dot
  and a word; these two parts are what it returns, and a URI of any other form (a second dot, a
  hyphen, no extension) gives nothing.
\<close>

theorem parse_file_info_exact:
  "(parse_file_info u = [n, e] \<longleftrightarrow> file_uri u n e) \<and> (parse_file_info u = [] \<longleftrightarrow> (\<nexists>n e. file_uri u n e))"
  by (rule file_info_iff)

text \<open>
  C22: a file is only ever served from the configured directory itself: the path opened is that
  directory, a slash, a word, a dot and a word, so no URI climbs out of it or into a subdirectory.
\<close>

theorem static_confined:
  assumes "get_status_code (static_handle_request files path req) = 200"
  shows "get_method req = ''GET'' \<and> (\<exists>n x. list_all is_word n \<and> list_all is_word x \<and>
    files (path @ ''/'' @ n @ ''.'' @ x) = Some (Response.get_body (static_handle_request files path req)) \<and>
    Response.get_header (static_handle_request files path req) ''Content-Type'' = get_mime_type (CHR ''.'' # x))"
proof -
  have get: "get_method req = ''GET''" and two: "\<not> length (parse_file_info (get_uri req)) < 2"
    using assms by (auto simp: handler_defs handler_simps split: if_splits)
  then have "parse_file_info (get_uri req) \<noteq> []" by auto
  then obtain n e where u: "file_uri (get_uri req) n e" using file_info_iff by blast
  then have "parse_file_info (get_uri req) = [n, e]" using file_info_iff by blast
  moreover obtain x where "e = CHR ''.'' # x" "list_all is_word n" "list_all is_word x"
    using u by (auto simp: file_uri_def)
  ultimately show ?thesis
    using assms get by (auto simp: handler_defs handler_simps split: option.splits)
qed

definition sample_files :: file_system where
  "sample_files = (\<lambda>p. if p = ''static/a.html'' then Some ''<p>'' else None)"

theorem static_confined_witness:
  "get_method (new_request (status_line ''GET'' ''/s/../a.html'' (CHR ''1'') (CHR ''1'')) []) = ''GET''"
proof -
  let ?r = "new_request (status_line ''GET'' ''/s/../a.html'' (CHR ''1'') (CHR ''1'')) []"
  have ok: "status_line_ok ''GET'' ''/s/../a.html'' (CHR ''1'') (CHR ''1'')"
    by (simp add: status_line_ok_def char_class_simps)
  have r: "get_uri ?r = ''/s/../a.html''" "get_method ?r = ''GET''"
    using new_request_ok [OF ok, of _ "[]"] by (simp_all add: request_getters cut_query_def)
  have "file_uri ''/s/../a.html'' ''a'' ''.html''"
    by (simp add: file_uri_def char_class_simps suffix_def)
  then have "parse_file_info ''/s/../a.html'' = [''a'', ''.html'']" using file_info_iff by blast
  then have "get_status_code (static_handle_request sample_files ''static'' ?r) = 200"
    by (simp add: handler_defs handler_simps r sample_files_def)
  from static_confined [OF this] show ?thesis by blast
qed

end
