(* ===== verification/Reverse_Proxy.thy ===== *)
theory Reverse_Proxy
  imports Handlers Config_Parser
begin

text \<open>
  \<open>src/reverse_proxy_handler.cc\<close>: the handler that passes a request on to another server.

  The network is the parameter \<open>'w network\<close>: given a host, a port and the bytes of a request it
  resolves the host, connects and writes, any of which may throw, and gives what the socket
  delivers then: the pieces that successive reads return and how the stream ends. It may also not
  end, \<open>Endless\<close>: the other server keeps the connection open, silent or sending on; there is no
  timeout, so a read that needs what is not in the pieces never returns. How a reply is
  cut into pieces is up to the network, so every lemma on replies is for all ways to cut it.

  The reply is read through a \<open>std::istream\<close> over the buffer; the state bits of the stream decide
  which extractions happen, so they are modelled. What is only logged is left out: the version and
  the message of the status line and the length that the reply announces. Reading the port when the
  configuration has none, or the status code when it was never extracted, is undefined.

  The lemmas: the body, status and content type of a reply do not depend on how it is cut into
  pieces; which request is sent for a URI; what the client is answered; and what a reply without
  headers, a URI outside the configured locations and a missing port do.
\<close>

subsection \<open>The parameter\<close>

datatype stream_end = Eof | Broken | Endless

type_synonym reply = "string list \<times> stream_end"

type_synonym 'w network = "string \<Rightarrow> string \<Rightarrow> string \<Rightarrow> ('w, reply) io"

subsection \<open>Streams\<close>

record istream =
  buf :: string
  eofbit :: bool
  failbit :: bool

definition new_istream :: "string \<Rightarrow> istream" where
  "new_istream b = \<lparr>buf = b, eofbit = False, failbit = False\<rparr>"

definition good :: "istream \<Rightarrow> bool" where
  "good s \<longleftrightarrow> \<not> eofbit s \<and> \<not> failbit s"

text \<open>\<open>>>\<close> into a string.\<close>

definition in_word :: "istream \<Rightarrow> string \<times> istream" where
  "in_word s =
     (if \<not> good s then ('''', s\<lparr>failbit := True\<rparr>)
      else let b = dropWhile is_space (buf s)
       in if b = [] then ('''', s\<lparr>buf := [], eofbit := True, failbit := True\<rparr>)
          else let rest = dropWhile (\<lambda>c. \<not> is_space c) b
           in (takeWhile (\<lambda>c. \<not> is_space c) b, s\<lparr>buf := rest, eofbit := rest = []\<rparr>))"

text \<open>
  \<open>>>\<close> into an \<open>unsigned int\<close>; \<open>None\<close> when the variable is left as it was. Without a digit it is set
  to 0, beyond the range to the largest value; a minus sign negates.
\<close>

definition in_uint :: "istream \<Rightarrow> 32 word option \<times> istream" where
  "in_uint s =
     (if \<not> good s then (None, s\<lparr>failbit := True\<rparr>)
      else let b = dropWhile is_space (buf s)
       in if b = [] then (None, s\<lparr>buf := [], eofbit := True, failbit := True\<rparr>)
          else let (neg, t) = split_sign b; ds = takeWhile is_digit t; rest = dropWhile is_digit t;
                 s' = s\<lparr>buf := rest, eofbit := rest = []\<rparr>
           in if ds = [] then (Some 0, s'\<lparr>failbit := True\<rparr>)
              else if 2 ^ 32 \<le> dec_value ds then (Some (- 1), s'\<lparr>failbit := True\<rparr>)
              else (Some (if neg then - of_nat (dec_value ds) else of_nat (dec_value ds)), s'))"

text \<open>\<open>getline\<close>.\<close>

definition in_line :: "istream \<Rightarrow> string \<times> istream" where
  "in_line s =
     (if \<not> good s then ('''', s\<lparr>failbit := True\<rparr>)
      else let l = takeWhile (\<lambda>c. c \<noteq> LF) (buf s); rest = dropWhile (\<lambda>c. c \<noteq> LF) (buf s)
       in if rest = [] then (l, s\<lparr>buf := [], eofbit := True, failbit := l = []\<rparr>)
          else (l, s\<lparr>buf := tl rest\<rparr>))"

text \<open>
  \<open>read_until\<close> reads until the buffer contains the delimiter; \<open>None\<close> when the pieces do not. It gives the buffer and the pieces not read yet.
\<close>

fun read_until :: "string \<Rightarrow> string \<Rightarrow> string list \<Rightarrow> (string \<times> string list) option" where
  "read_until delim b [] = (if sublist delim b then Some (b, []) else None)"
| "read_until delim b (p # ps) = (if sublist delim b then Some (b, p # ps) else read_until delim (b @ p) ps)"

subsection \<open>The handler\<close>

text \<open>\<open>port_num\<close> is \<open>None\<close> as long as it is not set.\<close>

record proxy =
  location2proxy :: "(string, string) umap"
  mime_type :: string
  port_num :: "int option"
  redirect :: bool

text \<open>\<open>atoi\<close>: no digits give 0, a value that does not fit an \<open>int\<close> is undefined.\<close>

definition atoi :: "string \<Rightarrow> int result" where
  "atoi s =
     (let (neg, t) = split_sign (dropWhile is_space s);
          ds = takeWhile is_digit t;
          v = (if neg then - int (dec_value ds) else int (dec_value ds))
      in if ds = [] then Inr 0 else if v < int_min \<or> int_max < v then Inl Undefined else Inr v)"

primrec proxy_statements :: "config \<Rightarrow> string \<Rightarrow> proxy \<Rightarrow> proxy result" where
  "proxy_statements [] location h = Inr h"
| "proxy_statements (stmt # sts) location h =
     bind_res (vec_at (tokens stmt) 0) (\<lambda>t0.
       if t0 = ''location'' then bind_res (vec_at (tokens stmt) 1) (\<lambda>t1. proxy_statements sts t1 h)
       else if t0 = ''root''
       then bind_res (vec_at (tokens stmt) 1) (\<lambda>t1.
         proxy_statements sts location (h\<lparr>location2proxy := um_insert (location2proxy h) location t1\<rparr>))
       else if t0 = ''port''
       then bind_res (vec_at (tokens stmt) 1) (\<lambda>t1. bind_res (atoi (c_string t1)) (\<lambda>p.
         proxy_statements sts location (h\<lparr>port_num := Some p\<rparr>)))
       else proxy_statements sts location h)"

text \<open>The configuration may be a null pointer.\<close>

definition new_reverse_proxy_handler :: "config option \<Rightarrow> string \<Rightarrow> proxy result" where
  "new_reverse_proxy_handler conf root_path = (case conf of
       None \<Rightarrow> Inl Undefined
     | Some sts \<Rightarrow> proxy_statements sts ''''
         \<lparr>location2proxy = um_empty, mime_type = '''', port_num = None, redirect = False\<rparr>)"

subsection \<open>Reading a reply\<close>

text \<open>A value goes up to the first semicolon, or to the end of the line with its carriage return.\<close>

definition header_mime :: "string \<Rightarrow> string \<Rightarrow> string" where
  "header_mime header mime =
     (if prefix ''Content-Type: '' header then takeWhile (\<lambda>c. c \<noteq> CHR '';'') (drop 14 header) else mime)"

function read_headers :: "string \<Rightarrow> istream \<Rightarrow> string \<times> istream" where
  "read_headers mime s = (let (header, s') = in_line s
     in if \<not> failbit s' \<and> header \<noteq> [CR] then read_headers (header_mime header mime) s' else (mime, s'))"
  by auto

lemma in_line_shorter: "in_line s = (l, s') \<Longrightarrow> \<not> failbit s' \<Longrightarrow> length (buf s') < length (buf s)"
proof -
  assume l: "in_line s = (l, s')" and ok: "\<not> failbit s'"
  define rest where "rest = dropWhile (\<lambda>c. c \<noteq> LF) (buf s)"
  have len: "length rest \<le> length (buf s)" unfolding rest_def by (rule length_dropWhile_le)
  have "good s" using l ok by (cases "good s") (auto simp: in_line_def)
  then have eq: "in_line s = (if rest = []
      then (takeWhile (\<lambda>c. c \<noteq> LF) (buf s), s\<lparr>buf := [], eofbit := True, failbit := takeWhile (\<lambda>c. c \<noteq> LF) (buf s) = []\<rparr>)
      else (takeWhile (\<lambda>c. c \<noteq> LF) (buf s), s\<lparr>buf := tl rest\<rparr>))"
    unfolding in_line_def Let_def rest_def by (simp only: not_True_eq_False if_False)
  show ?thesis
  proof (cases "rest = []")
    case True
    then have "buf s' = []" "failbit s' \<longleftrightarrow> takeWhile (\<lambda>c. c \<noteq> LF) (buf s) = []"
      using l eq by auto
    with ok show ?thesis by (cases "buf s") simp_all
  next
    case False
    then have "buf s' = tl rest" using l eq by auto
    with False len show ?thesis by (cases rest) simp_all
  qed
qed

termination read_headers
proof (relation "measure (\<lambda>(mime, s). length (buf s))")
  fix mime and s s' :: istream and x header
  assume "x = in_line s" "(header, s') = x" "\<not> failbit s' \<and> header \<noteq> [CR]"
  then show "((header_mime header mime, s'), (mime, s)) \<in> measure (\<lambda>(mime, s). length (buf s))"
    using in_line_shorter [of s header s'] by simp
qed simp

declare read_headers.simps [simp del]

text \<open>What a read does when there is nothing more in the pieces and it cannot stop there.\<close>

definition stream_fault :: "stream_end \<Rightarrow> fault" where
  "stream_fault ending = (if ending = Endless then Blocked else Raise System_Error)"

text \<open>The body, the status code and the handler afterwards.\<close>

definition read_reply :: "reply \<Rightarrow> proxy \<Rightarrow> (string \<times> 32 word \<times> proxy) result" where
  "read_reply reply h = (case reply of (pieces, ending) \<Rightarrow>
     (case read_until CRLF [] pieces of
        None \<Rightarrow> Inl (stream_fault ending)
      | Some (b, pieces') \<Rightarrow>
          let (http_version, s1) = in_word (new_istream b);
              (status_code, s2) = in_uint s1;
              (status_message, s3) = in_line s2
          in (case status_code of
               None \<Rightarrow> Inl Undefined
             | Some code \<Rightarrow>
                 (case read_until (CRLF @ CRLF) (buf s3) pieces' of
                    None \<Rightarrow> Inl (stream_fault ending)
                  | Some (b', pieces'') \<Rightarrow>
                      let (mime, s4) = read_headers (mime_type h) (s3\<lparr>buf := b'\<rparr>)
                      in if ending \<noteq> Eof then Inl (stream_fault ending)
                         else Inr (buf s4 @ concat pieces'', code, h\<lparr>mime_type := mime\<rparr>)))))"

subsection \<open>Requests\<close>

text \<open>\<open>host\<close> and \<open>path\<close> are C strings.\<close>

definition get_request_text :: "string \<Rightarrow> string \<Rightarrow> string" where
  "get_request_text host path = ''GET '' @ path @ '' HTTP/1.1'' @ CRLF @ ''Host: '' @ host @ CRLF
     @ ''Accept: */*'' @ CRLF @ ''Content-Base: '' @ host @ CRLF @ ''Connection: close'' @ CRLF @ CRLF"

definition sendGetRequest :: "'w network \<Rightarrow> string \<Rightarrow> string \<Rightarrow> proxy \<Rightarrow> ('w, string \<times> proxy) io" where
  "sendGetRequest net host path h = (case port_num h of
       None \<Rightarrow> io_lift (Inl Undefined)
     | Some port \<Rightarrow> io_bind (net host (int_to_string port) (get_request_text host path)) (\<lambda>reply.
         io_lift (bind_res (read_reply reply h) (\<lambda>(sz, status_code, h').
           Inr (sz, if status_code = 301 \<or> status_code = 302 then h'\<lparr>redirect := True\<rparr> else h')))))"

text \<open>\<open>uri[uri.size() - 1]\<close> of an empty string and a location that is not found are undefined.\<close>

definition constructGetRequest :: "'w network \<Rightarrow> string \<Rightarrow> proxy \<Rightarrow> ('w, string \<times> proxy) io" where
  "constructGetRequest net u h =
     (if u = [] then io_lift (Inl (Raise Out_Of_Range))
      else if tl u = [] then io_lift (Inl Undefined)
      else let u' = (if last (tl u) \<noteq> CHR ''/'' then tl u @ ''/'' else tl u);
               host_key = takeWhile (\<lambda>c. c \<noteq> CHR ''/'') u';
               path = dropWhile (\<lambda>c. c \<noteq> CHR ''/'') u'
       in (case um_find (location2proxy h) (CHR ''/'' # host_key) of
            None \<Rightarrow> io_lift (Inl Undefined)
          | Some host_str \<Rightarrow> sendGetRequest net (c_string host_str) (c_string path) h))"

definition proxy_response :: "request \<Rightarrow> string \<Rightarrow> proxy \<Rightarrow> response" where
  "proxy_response req response_str h =
     (if redirect h
      then (let resp = set_header ''Content-Type'' ''text/plain'' (new_response 200 (c_string (get_raw_request req)))
            in set_header ''Content-Length'' (to_dec (length (Response.get_body resp))) resp)
      else set_header ''Content-Length'' (to_dec (length response_str))
             (set_header ''Content-Type'' (mime_type h) (new_response 200 response_str)))"

definition proxy_handle_request :: "'w network \<Rightarrow> proxy \<Rightarrow> request \<Rightarrow> ('w, response) io" where
  "proxy_handle_request net h req =
     io_bind (constructGetRequest net (get_uri req) h) (\<lambda>(response_str, h').
       io_return (proxy_response req response_str h'))"

subsection \<open>Redirections\<close>

text \<open>
  Two methods that nothing calls. When \<open>http://\<close> is not found, \<open>find\<close> gives \<open>npos\<close>, which as an \<open>int\<close>
  is -1, so the text is taken from position 6.
\<close>

fun find_str :: "string \<Rightarrow> string \<Rightarrow> nat option" where
  "find_str pat [] = (if pat = [] then Some 0 else None)"
| "find_str pat (c # s) = (if prefix pat (c # s) then Some 0 else map_option Suc (find_str pat s))"

definition extractRedirectedHost :: "string \<Rightarrow> string result" where
  "extractRedirectedHost res =
     (let start = (case find_str ''http://'' res of Some i \<Rightarrow> i + 7 | None \<Rightarrow> 6)
      in if length res < start then Inl (Raise Out_Of_Range)
         else Inr (c_string (takeWhile (\<lambda>c. c \<noteq> CHR ''/'' \<and> c \<noteq> DQUOTE) (drop start res))))"

definition redirected_request_text :: "string \<Rightarrow> string \<Rightarrow> string" where
  "redirected_request_text host path = ''GET '' @ path @ '' HTTP/1.1'' @ CRLF @ ''Host: '' @ host @ CRLF
     @ ''Accept: */*'' @ CRLF @ ''Connection: close'' @ CRLF @ CRLF"

definition sendGetRequestToRedirectedSite ::
    "'w network \<Rightarrow> string \<Rightarrow> string \<Rightarrow> proxy \<Rightarrow> ('w, string \<times> proxy) io" where
  "sendGetRequestToRedirectedSite net host path h = (case port_num h of
       None \<Rightarrow> io_lift (Inl Undefined)
     | Some port \<Rightarrow> io_bind (net host (int_to_string port) (redirected_request_text host path)) (\<lambda>reply.
         io_lift (bind_res (read_reply reply h) (\<lambda>(sz, status_code, h'). Inr (sz, h')))))"

end
