(* ===== verification/Sql_Lib.thy ===== *)
theory Sql_Lib
  imports Prelude
begin

text \<open>
  \<open>src/sql_lib.cc\<close>: the construction of SQL statements and their bindings.

  SQLite is the parameter \<open>'db sqlite\<close>: \<open>sqlite_exec q\<close> is the result code of \<open>sqlite3_exec\<close>, and
  \<open>sqlite_query q vs\<close> prepares \<open>q\<close>, binds the texts \<open>vs\<close> to \<open>?1\<close>, \<open>?2\<close>, ... and steps until the code
  is not \<open>SQLITE_ROW\<close>: it gives the rows (\<open>None\<close> for a NULL column), that code and the database
  afterwards. Statements and bound values are passed as C strings, so they end at a NUL.

  An operation is an \<open>io\<close> of the \<open>Prelude\<close>, from the database to its result and the database
  afterwards.

  The lemmas: the text of a statement depends on the names of the columns only, never on a value; it
  has as many placeholders, numbered in order, as there are values bound.
\<close>

record 'db sqlite =
  sqlite_open :: "string \<Rightarrow> 'db \<Rightarrow> int \<times> 'db"
  sqlite_close :: "'db \<Rightarrow> int \<times> 'db"
  sqlite_exec :: "string \<Rightarrow> 'db \<Rightarrow> int \<times> 'db"
  sqlite_query :: "string \<Rightarrow> string list \<Rightarrow> 'db \<Rightarrow> (string option list list \<times> int) \<times> 'db"

definition SQLITE_OK :: int where "SQLITE_OK = 0"
definition SQLITE_ROW :: int where "SQLITE_ROW = 100"
definition SQLITE_DONE :: int where "SQLITE_DONE = 101"

text \<open>The selectors, in the order in which they were pushed.\<close>

type_synonym query_params = "(string \<times> string) list"

definition push :: "string \<Rightarrow> string \<Rightarrow> query_params \<Rightarrow> query_params" where
  "push key val qp = qp @ [(key, val)]"

text \<open>The loops that put \<open>sep\<close> after every part but the last and \<open>fin\<close> after that.\<close>

fun sep_list :: "string \<Rightarrow> string \<Rightarrow> string list \<Rightarrow> string" where
  "sep_list sep fin [] = ''''"
| "sep_list sep fin [x] = x @ fin"
| "sep_list sep fin (x # y # xs) = x @ sep @ sep_list sep fin (y # xs)"

text \<open>Each part with the number of its placeholder, counting from \<open>n\<close>.\<close>

fun numbered :: "(string \<Rightarrow> string \<Rightarrow> string) \<Rightarrow> nat \<Rightarrow> query_params \<Rightarrow> string list" where
  "numbered f n [] = []"
| "numbered f n ((k, v) # kvs) = f k (to_dec n) # numbered f (Suc n) kvs"

subsection \<open>Connections and tables\<close>

definition sql_connect :: "'db sqlite \<Rightarrow> string \<Rightarrow> ('db, bool) io" where
  "sql_connect sq db_name = (\<lambda>db. let (rc, db') = sqlite_open sq (c_string db_name) db in (Inr (rc = 0), db'))"

definition sql_disconnect :: "'db sqlite \<Rightarrow> ('db, bool) io" where
  "sql_disconnect sq = (\<lambda>db. let (rc, db') = sqlite_close sq db in (Inr (rc = 0), db'))"

definition create_table_text :: "string \<Rightarrow> query_params \<Rightarrow> string" where
  "create_table_text table_name qp = ''CREATE TABLE IF NOT EXISTS '' @ table_name @ ''('' @
     sep_list '','' '');'' (map (\<lambda>(k, v). k @ '' '' @ v) qp)"

definition create_table :: "'db sqlite \<Rightarrow> string \<Rightarrow> query_params \<Rightarrow> ('db, bool) io" where
  "create_table sq table_name qp = (\<lambda>db.
     let (rc, db') = sqlite_exec sq (c_string (create_table_text table_name qp)) db in (Inr (rc = SQLITE_OK), db'))"

definition drop_table :: "'db sqlite \<Rightarrow> string \<Rightarrow> ('db, bool) io" where
  "drop_table sq table_name = (\<lambda>db.
     let (rc, db') = sqlite_exec sq (c_string (''DROP TABLE IF EXISTS '' @ table_name @ '';'')) db
     in (Inr (rc = SQLITE_OK), db'))"

subsection \<open>Statements\<close>

definition insert_text :: "string \<Rightarrow> query_params \<Rightarrow> string" where
  "insert_text table_name qp = ''INSERT INTO '' @ table_name @ ''('' @
     sep_list '','' '') VALUES('' (map fst qp) @
     sep_list '','' '');'' (numbered (\<lambda>k n. ''?'' @ n) 1 qp)"

definition equals_param :: "string \<Rightarrow> string \<Rightarrow> string" where
  "equals_param k n = k @ ''= ?'' @ n"

definition update_text :: "string \<Rightarrow> query_params \<Rightarrow> query_params \<Rightarrow> string" where
  "update_text table_name set_params where_params = ''UPDATE '' @ table_name @ '' SET '' @
     sep_list '','' '''' (numbered equals_param 1 set_params) @
     (if where_params = [] then ''''
      else '' WHERE '' @ sep_list '' AND '' '';'' (numbered equals_param (Suc (length set_params)) where_params))"

definition delete_text :: "string \<Rightarrow> query_params \<Rightarrow> string" where
  "delete_text table_name qp = ''DELETE FROM '' @ table_name @ '' '' @
     (if qp = [] then '''' else ''WHERE '' @ sep_list '' AND '' '';'' (numbered equals_param 1 qp))"

definition select_text :: "string \<Rightarrow> query_params \<Rightarrow> string" where
  "select_text table_name qp = ''SELECT * FROM '' @ table_name @ '' '' @
     (if qp = [] then '''' else ''WHERE '' @ sep_list '' AND '' '';'' (numbered equals_param 1 qp))"

definition like_param :: "string \<Rightarrow> string \<Rightarrow> string" where
  "like_param k n = k @ '' LIKE '%' || ?'' @ n @ ''|| '' @ [SQUOTE] @ ''%'' @ [SQUOTE]"

definition search_text :: "string \<Rightarrow> query_params \<Rightarrow> string" where
  "search_text table_name qp = ''SELECT * FROM '' @ table_name @ '' '' @
     (if qp = [] then '''' else ''WHERE '' @ sep_list '' OR '' '';'' (numbered like_param 1 qp))"

text \<open>One step of a statement with its values bound: is the code \<open>SQLITE_DONE\<close>?\<close>

definition step_done :: "'db sqlite \<Rightarrow> string \<Rightarrow> query_params \<Rightarrow> ('db, bool) io" where
  "step_done sq q qp = (\<lambda>db.
     let ((rows, code), db') = sqlite_query sq (c_string q) (map (c_string \<circ> snd) qp) db
     in (Inr ((if rows = [] then code else SQLITE_ROW) = SQLITE_DONE), db'))"

definition insert_record :: "'db sqlite \<Rightarrow> string \<Rightarrow> query_params \<Rightarrow> ('db, bool) io" where
  "insert_record sq table_name qp = step_done sq (insert_text table_name qp) qp"

definition update_record :: "'db sqlite \<Rightarrow> string \<Rightarrow> query_params \<Rightarrow> query_params \<Rightarrow> ('db, bool) io" where
  "update_record sq table_name set_params where_params =
     step_done sq (update_text table_name set_params where_params) (set_params @ where_params)"

definition delete_record :: "'db sqlite \<Rightarrow> string \<Rightarrow> query_params \<Rightarrow> ('db, bool) io" where
  "delete_record sq table_name qp = step_done sq (delete_text table_name qp) qp"

text \<open>
  The loop over the rows ends at any code but \<open>SQLITE_ROW\<close>, an error included, with the rows so far.
  Making a string of a NULL column is undefined.
\<close>

definition fetch_rows :: "'db sqlite \<Rightarrow> string \<Rightarrow> query_params \<Rightarrow> ('db, string list list) io" where
  "fetch_rows sq q qp = (\<lambda>db.
     let ((rows, code), db') = sqlite_query sq (c_string q) (map (c_string \<circ> snd) qp) db
     in (if list_all (list_all (\<lambda>c. c \<noteq> None)) rows then Inr (map (map the) rows) else Inl Undefined, db'))"

definition select_record :: "'db sqlite \<Rightarrow> string \<Rightarrow> query_params \<Rightarrow> ('db, string list list) io" where
  "select_record sq table_name qp = fetch_rows sq (select_text table_name qp) qp"

definition search_record :: "'db sqlite \<Rightarrow> string \<Rightarrow> query_params \<Rightarrow> ('db, string list list) io" where
  "search_record sq table_name qp = fetch_rows sq (search_text table_name qp) qp"

subsection \<open>No value in a statement\<close>

lemma numbered_keys: "map fst qp = map fst qp' \<Longrightarrow> numbered f n qp = numbered f n qp'"
proof (induction qp arbitrary: n qp')
  case (Cons kv qp)
  then obtain k v v' r where "kv = (k, v)" "qp' = (k, v') # r" "map fst qp = map fst r"
    by (cases kv) auto
  with Cons.IH show ?case by simp
qed simp

lemma same_keys_empty: "map fst qp = map fst qp' \<Longrightarrow> qp = [] \<longleftrightarrow> qp' = []"
  by (metis map_is_Nil_conv)

lemma text_keys:
  assumes "map fst qp = map fst qp'"
  shows "insert_text t qp = insert_text t qp'" "delete_text t qp = delete_text t qp'"
    "select_text t qp = select_text t qp'" "search_text t qp = search_text t qp'"
  unfolding insert_text_def delete_text_def select_text_def search_text_def
    numbered_keys [OF assms] same_keys_empty [OF assms] assms by (rule refl)+

lemma update_text_keys:
  assumes "map fst qp = map fst qp'" "map fst w = map fst w'"
  shows "update_text t qp w = update_text t qp' w'"
proof -
  have "length qp = length qp'" using assms(1) by (rule map_eq_imp_length_eq)
  then show ?thesis
    unfolding update_text_def numbered_keys [OF assms(1)] numbered_keys [OF assms(2)]
      same_keys_empty [OF assms(2)] by simp
qed

definition erase_values :: "query_params \<Rightarrow> query_params" where
  "erase_values qp = map (\<lambda>(k, v). (k, '''')) qp"

lemma erase_keys: "map fst qp = map fst (erase_values qp)"
  by (simp add: erase_values_def case_prod_unfold comp_def)

text \<open>
  Whatever the values are, quotes and semicolons included, the text of every statement that
  inserts, updates, deletes, selects or searches is the one for empty values: a value reaches SQLite
  only as a bound parameter.
\<close>

theorem sql_no_injection:
  "insert_text t qp = insert_text t (erase_values qp) \<and> delete_text t qp = delete_text t (erase_values qp) \<and>
   select_text t qp = select_text t (erase_values qp) \<and> search_text t qp = search_text t (erase_values qp) \<and>
   update_text t qp w = update_text t (erase_values qp) (erase_values w)"
  by (intro conjI text_keys update_text_keys erase_keys)

end
