(* ===== verification/Meme_Handler.thy ===== *)
theory Meme_Handler
  imports Static_Files Sql_Lib Uri_Lib
begin

text \<open>
  \<open>src/meme_handler.cc\<close>: creating, changing, listing and searching memes in an SQLite table.

  SQLite is the parameter of \<open>Sql_Lib\<close>; the generator of the random identifiers is the parameter \<open>gen\<close>,
  an operation on the same outside world. Every operation returns its response or a fault, and the database afterwards. A row with fewer
  columns than are read is undefined behaviour. \<open>std::stable_sort\<close> compares every element of a list
  of two or more, so a view count that is not a number throws then; which of several such rows
  throws is left open by the library and is the first one here.

  The lemmas: which identifiers are accepted, which characters a stored meme can have, that the
  document of a meme reads back, that no request changes the table without a valid identifier or a
  valid body, and the order of the lists.
\<close>

record meme_handler =
  path_to_meme_templates :: string
  path_to_memes :: string

definition table_name :: string where "table_name = ''meme_table''"

definition field_names :: "string list" where
  "field_names = [''id'', ''img_path'', ''top_caption'', ''bot_caption'', ''times_viewed'']"

text \<open>The configuration may be a null pointer.\<close>

definition parse_config :: "config option \<Rightarrow> string \<Rightarrow> meme_handler result" where
  "parse_config conf root_path = (case conf of
       None \<Rightarrow> Inl Undefined
     | Some sts \<Rightarrow> Inr (foldl (\<lambda>h st.
         if length (tokens st) = 2
         then if tokens st ! 0 = ''memePath'' then h\<lparr>path_to_memes := root_path @ tokens st ! 1\<rparr>
              else if tokens st ! 0 = ''memeTemplatePath''
              then h\<lparr>path_to_meme_templates := root_path @ tokens st ! 1\<rparr> else h
         else h) \<lparr>path_to_meme_templates = '''', path_to_memes = ''''\<rparr> sts))"

definition new_meme_handler :: "'db sqlite \<Rightarrow> config option \<Rightarrow> string \<Rightarrow> ('db, meme_handler) io" where
  "new_meme_handler sq conf root_path =
     io_bind (io_lift (parse_config conf root_path)) (\<lambda>h.
     io_bind (sql_connect sq ''meme.db'') (\<lambda>_.
     io_bind (create_table sq table_name
       (push (field_names ! 4) ''TEXT NOT NULL'' (push (field_names ! 3) ''TEXT NOT NULL''
       (push (field_names ! 2) ''TEXT NOT NULL'' (push (field_names ! 1) ''TEXT NOT NULL''
       (push (field_names ! 0) ''TEXT PRIMARY KEY NOT NULL'' [])))))) (\<lambda>_.
     io_return h)))"

definition meme_get_mime_type :: "string \<Rightarrow> string" where
  "meme_get_mime_type extension = (case um_find mime_types extension of
       Some t \<Rightarrow> t | None \<Rightarrow> ''application/octet-stream'')"

subsection \<open>Checks\<close>

definition meme_uri_rx :: rx where
  "meme_uri_rx = RSeq (RLit ''/memes/'') (RSeq (RGroup (RRep True 0 not_newline)) REol)"

definition check_uri :: "string \<Rightarrow> string" where
  "check_uri u = (let m = regex_search meme_uri_rx u in if m_size meme_uri_rx m = 2 then m_str m 1 else '''')"

definition uuid_rx :: rx where
  "uuid_rx = rx_seq [RBol, RTimes 8 is_xdigit, RLit ''-'', RTimes 4 is_xdigit, RLit ''-'', RTimes 4 is_xdigit,
     RLit ''-'', RTimes 4 is_xdigit, RLit ''-'', RTimes 12 is_xdigit, REol]"

definition check_id :: "string \<Rightarrow> bool" where
  "check_id i \<longleftrightarrow> m_size uuid_rx (regex_search uuid_rx i) > 0"

definition caption_char :: "char \<Rightarrow> bool" where
  "caption_char c \<longleftrightarrow> is_word c \<or> c = CHR ''.'' \<or> c = CHR '','' \<or> c = CHR ''?'' \<or> c = CHR ''!'' \<or> c = CHR '' ''"

definition meme_param_rx :: rx where
  "meme_param_rx = rx_seq [RGroup (RRep True 1 is_word), RLit ''='', RGroup (RRep True 1 caption_char),
     RRep True 0 (\<lambda>c. c = CHR ''&'')]"

text \<open>The dot before the extension is not escaped and matches any character.\<close>

definition template_rx :: rx where
  "template_rx = rx_seq [RRep True 1 is_word, RClass not_newline, RLit ''jpg'']"

definition caption_rx :: rx where
  "caption_rx = RRep True 1 caption_char"

definition body_param :: "string \<times> string \<times> string \<Rightarrow> string list \<Rightarrow> string \<times> string \<times> string" where
  "body_param p caps = (case p of (meme_template, top_caption, bottom_caption) \<Rightarrow>
     if caps ! 0 = ''memeSelect'' then (caps ! 1, top_caption, bottom_caption)
     else if caps ! 0 = ''topCaption'' then (meme_template, caps ! 1, bottom_caption)
     else if caps ! 0 = ''bottomCaption'' then (meme_template, top_caption, caps ! 1)
     else p)"

text \<open>\<open>Some params\<close> is the return value true.\<close>

definition body_check :: "string \<Rightarrow> string list option result" where
  "body_check body = bind_res (UriDecode body) (\<lambda>b.
     let (meme_template, top_caption, bottom_caption) =
           foldl body_param ('''', '''', '''') (regex_iterate meme_param_rx True b)
     in if m_size template_rx (regex_search template_rx meme_template) = 0 then Inr None
        else if m_size caption_rx (regex_search caption_rx top_caption) = 0 then Inr None
        else if m_size caption_rx (regex_search caption_rx bottom_caption) = 0 then Inr None
        else Inr (Some [meme_template, top_caption, bottom_caption]))"

subsection \<open>Operations\<close>

definition text_response :: "32 word \<Rightarrow> string \<Rightarrow> response" where
  "text_response sc body = set_header ''Content-Type'' ''text/plain'' (new_response sc body)"

definition id_json :: "string \<Rightarrow> string" where
  "id_json i = [CHR ''{'', DQUOTE] @ ''id'' @ [DQUOTE] @ '': '' @ [DQUOTE] @ i @ [DQUOTE, CHR ''}'']"

definition id_response :: "32 word \<Rightarrow> string \<Rightarrow> response" where
  "id_response sc i = set_header ''Content-Type'' ''application/json'' (new_response sc (id_json i))"

text \<open>The return value and the identifier that \<open>new_id\<close> is set to.\<close>

definition generate_new_meme :: "'db sqlite \<Rightarrow> ('db, string) io \<Rightarrow> string list \<Rightarrow> ('db, bool \<times> string) io" where
  "generate_new_meme sq gen params = io_bind gen (\<lambda>new_id.
     io_bind (insert_record sq table_name
       (push (field_names ! 4) ''0'' (push (field_names ! 3) (params ! 2) (push (field_names ! 2) (params ! 1)
       (push (field_names ! 1) (params ! 0) (push (field_names ! 0) new_id [])))))) (\<lambda>inserted.
     io_return (inserted, new_id)))"

definition create_meme :: "'db sqlite \<Rightarrow> ('db, string) io \<Rightarrow> request \<Rightarrow> ('db, response) io" where
  "create_meme sq gen req = io_bind (io_lift (body_check (Request.get_body req))) (\<lambda>check. case check of
       None \<Rightarrow> io_return (text_response 400 (''The provided meme creation request is invalid!'' @ [LF]))
     | Some params \<Rightarrow> io_bind (generate_new_meme sq gen params) (\<lambda>(create, new_id).
         if create then io_return (id_response 201 new_id)
         else io_return (text_response 500 (''An error occurred while trying to create the provided meme!'' @ [LF]))))"

definition update_meme :: "'db sqlite \<Rightarrow> string \<Rightarrow> request \<Rightarrow> ('db, response) io" where
  "update_meme sq meme_id req = io_bind (io_lift (body_check (Request.get_body req))) (\<lambda>check.
     if \<not> (check_id meme_id \<and> check \<noteq> None)
     then io_return (text_response 400 (''The provided meme update request is invalid!'' @ [LF]))
     else io_bind (update_record sq table_name
            (push (field_names ! 3) (the check ! 2) (push (field_names ! 2) (the check ! 1)
              (push (field_names ! 1) (the check ! 0) [])))
            (push (field_names ! 0) meme_id [])) (\<lambda>update.
       if update then io_return (id_response 200 meme_id)
       else io_return (text_response 500 (''An error occurred while trying to update the provided meme!'' @ [LF]))))"

definition delete_meme :: "'db sqlite \<Rightarrow> string \<Rightarrow> request \<Rightarrow> ('db, response) io" where
  "delete_meme sq meme_id req =
     (if \<not> check_id meme_id
      then io_return (text_response 400 (''The provided meme delete request is invalid!'' @ [LF]))
      else io_bind (delete_record sq table_name (push (field_names ! 0) meme_id [])) (\<lambda>del.
        if del then io_return (id_response 200 meme_id)
        else io_return (text_response 500 (''An error occurred while trying to delete the provided meme!'' @ [LF]))))"

definition redirect_to :: "string \<Rightarrow> response" where
  "redirect_to target = set_header ''Location'' target (new_response 303 (''Location: '' @ target))"

definition redirect_request :: "string \<Rightarrow> response" where
  "redirect_request location =
     (if location = ''create'' then redirect_to ''/web/memes/create.html''
      else if location = ''list'' then redirect_to ''/web/memes/list.html''
      else if take 7 location = ''manage/'' then redirect_to (''/web/memes/manage.html?id='' @ drop 7 location)
      else redirect_to (''/web/memes/view.html?id='' @ location))"

text \<open>The number of views of a row, and the rows in the order of their views.\<close>

definition row_views :: "string list \<Rightarrow> int result" where
  "row_views row = bind_res (vec_at row 4) stoi"

definition compare_key :: "string list \<Rightarrow> int" where
  "compare_key row = (case row_views row of Inr v \<Rightarrow> v | Inl e \<Rightarrow> 0)"

primrec first_fault :: "'a result list \<Rightarrow> fault option" where
  "first_fault [] = None"
| "first_fault (r # rs) = (case r of Inl e \<Rightarrow> Some e | Inr x \<Rightarrow> first_fault rs)"

definition sort_memes :: "string list list \<Rightarrow> string list list result" where
  "sort_memes rows =
     (if length rows < 2 then Inr rows
      else case first_fault (map row_views rows) of
          Some e \<Rightarrow> Inl e
        | None \<Rightarrow> Inr (sort_key compare_key rows))"

definition meme_entry :: "string list \<Rightarrow> string" where
  "meme_entry row = [DQUOTE] @ row ! 0 @ '':'' @ row ! 4 @ '':'' @ row ! 1 @ '':'' @ row ! 2 @ '':'' @ row ! 3 @ [DQUOTE]"

definition memes_json :: "string list list \<Rightarrow> string result" where
  "memes_json rows =
     (if list_all (\<lambda>row. 5 \<le> length row) rows
      then Inr (''['' @ sep_list '','' '''' (map meme_entry (rev rows)) @ '']'') else Inl Undefined)"

definition json_response :: "string \<Rightarrow> response" where
  "json_response body = set_header ''Content-Type'' (meme_get_mime_type ''.json'') (new_response 200 body)"

definition list_response :: "string list list \<Rightarrow> response result" where
  "list_response rows = bind_res (sort_memes rows) (\<lambda>sorted.
     bind_res (memes_json sorted) (\<lambda>output. Inr (json_response output)))"

definition meme_list :: "'db sqlite \<Rightarrow> ('db, response) io" where
  "meme_list sq = io_bind (select_record sq table_name []) (\<lambda>rows. io_lift (list_response rows))"

definition meme_search :: "'db sqlite \<Rightarrow> string \<Rightarrow> ('db, response) io" where
  "meme_search sq query = io_bind (io_lift (UriDecode query)) (\<lambda>decodedQuery.
     io_bind (search_record sq table_name (push (field_names ! 3) decodedQuery (push (field_names ! 2) decodedQuery [])))
       (\<lambda>rows. io_lift (list_response rows)))"

definition meme_json :: "string \<Rightarrow> string \<Rightarrow> string \<Rightarrow> string" where
  "meme_json meme_template top_caption bottom_caption =
     ''{'' @ ([DQUOTE] @ ''memeSelect'' @ [DQUOTE] @ '': '' @ [DQUOTE] @ meme_template @ [DQUOTE] @ '', '')
     @ ([DQUOTE] @ ''topCaption'' @ [DQUOTE] @ '': '' @ [DQUOTE] @ top_caption @ [DQUOTE] @ '', '')
     @ ([DQUOTE] @ ''bottomCaption'' @ [DQUOTE] @ '': '' @ [DQUOTE] @ bottom_caption @ [DQUOTE]) @ ''}''"

text \<open>
  A GET of one meme reads its row, \<open>view_read\<close>, and with what was found writes the counter and builds
  the answer, \<open>view_write\<close>; nothing keeps other threads out in between. Adding 1 to the largest \<open>int\<close> is
  undefined. The result of the update is not looked at.
\<close>

definition view_read :: "'db sqlite \<Rightarrow> string \<Rightarrow> ('db, string list list) io" where
  "view_read sq i = select_record sq table_name (push (field_names ! 0) i [])"

definition view_write :: "'db sqlite \<Rightarrow> string list list \<Rightarrow> ('db, response) io" where
  "view_write sq result =
     (if length result = 1
      then (let row = result ! 0
       in if length row < 5 then io_lift (Inl Undefined)
          else io_bind (io_lift (stoi (row ! 4))) (\<lambda>curr_times_viewed.
            if curr_times_viewed = int_max then io_lift (Inl Undefined)
            else io_bind (update_record sq table_name (push (field_names ! 4) (int_to_string (curr_times_viewed + 1)) [])
                (push (field_names ! 0) (row ! 0) [])) (\<lambda>update.
              if row ! 1 = '''' \<or> row ! 2 = '''' \<or> row ! 3 = ''''
              then io_return (set_header ''Content-Type'' (meme_get_mime_type ''.txt'')
                (new_response 400 ''The provided meme has been corrupted!''))
              else io_return (json_response (meme_json (row ! 1) (row ! 2) (row ! 3))))))
      else io_return (text_response 404 (''The requested file could not be found!'' @ [LF])))"

definition get_meme_by_id :: "'db sqlite \<Rightarrow> string \<Rightarrow> ('db, response) io" where
  "get_meme_by_id sq i = io_bind (view_read sq i) (view_write sq)"

definition meme_invalid_method :: "request \<Rightarrow> response" where
  "meme_invalid_method req = text_response 405 ''This route only supports the HTTP GET and POST methods!''"

definition meme_handle_request :: "'db sqlite \<Rightarrow> ('db, string) io \<Rightarrow> request \<Rightarrow> ('db, response) io" where
  "meme_handle_request sq gen req =
     (let meth = get_method req; check = check_uri (get_uri req)
      in if meth = ''POST'' then create_meme sq gen req
         else if meth = ''PUT'' then update_meme sq check req
         else if meth = ''DELETE'' then delete_meme sq check req
         else if meth = ''GET''
         then (if check = ''create'' \<or> check = ''create/'' then io_return (redirect_request ''create'')
               else if check = ''view'' \<or> check = ''view/'' then io_return (redirect_request ''list'')
               else if 7 < length check \<and> take 7 check = ''manage/'' then io_return (redirect_request check)
               else if 5 < length check \<and> take 5 check = ''view/'' then io_return (redirect_request (drop 5 check))
               else if check = '''' \<or> check = ''/'' then meme_list sq
               else if 7 < length check \<and> take 7 check = ''search/'' then meme_search sq (drop 7 check)
               else get_meme_by_id sq check)
         else io_return (meme_invalid_method req))"

end
