(* ===== verification/Router.thy ===== *)
theory Router
  imports Static_Files Config_Correct Reverse_Proxy Meme_Handler
begin

text \<open>
  \<open>src/router.cc\<close>: the table of routes, the choice of a handler for a URI, and \<open>route_request\<close>, which
  runs the handler, records the request and applies the default headers.

  The recorder is a global of the program; the operations that write it take it and return it. A
  handler object is the data its constructor keeps: the path of the static handler, and the records
  of the proxy and meme handlers. \<open>environment\<close> holds the parameters that handlers use: the files,
  the network, SQLite and the generator of identifiers. All but the files act on the outside world,
  which is passed along; selecting the meme handler already opens its database.
  \<open>statement->tokens_[i]\<close> out of range is undefined behaviour.

  The lemmas: the longest registered prefix is found whatever the order of the table, the first
  registration of a URI wins and the status page agrees with the table, what the configuration
  registers, when selecting a handler is defined, and what a response to a request is.
\<close>

record router =
  config_of :: config
  route_map :: "(string, string) umap"
  headers :: "(string, string) umap"
  server_root :: string

definition new_router :: "config \<Rightarrow> string \<Rightarrow> router" where
  "new_router conf root_path =
     \<lparr>config_of = conf, route_map = um_empty, headers = um_empty, server_root = root_path\<rparr>"

lemma new_router_fields [simp]:
  "config_of (new_router conf root_path) = conf" "route_map (new_router conf root_path) = um_empty"
  "headers (new_router conf root_path) = um_empty" "server_root (new_router conf root_path) = root_path"
  by (simp_all add: new_router_def)

subsection \<open>Registration\<close>

type_synonym registry = "router \<times> server_status_recorder"

definition register_route :: "string \<Rightarrow> string \<Rightarrow> registry \<Rightarrow> registry" where
  "register_route u handler_name s = (case s of (r, rec) \<Rightarrow>
     (case um_find (route_map r) u of
        None \<Rightarrow> (r\<lparr>route_map := um_insert (route_map r) u handler_name\<rparr>, prefix_recorder (u, handler_name) rec)
      | Some _ \<Rightarrow> (r, rec)))"

primrec register_locations :: "string \<Rightarrow> config \<Rightarrow> registry \<Rightarrow> registry result" where
  "register_locations handlerKey [] s = Inr s"
| "register_locations handlerKey (st # sts) s =
     (if 0 < length (tokens st) \<and> tokens st ! 0 = ''location''
      then bind_res (vec_at (tokens st) 1) (\<lambda>u. register_locations handlerKey sts (register_route u handlerKey s))
      else register_locations handlerKey sts s)"

primrec register_statements :: "config \<Rightarrow> registry \<Rightarrow> registry result" where
  "register_statements [] s = Inr s"
| "register_statements (st # sts) s =
     (if 1 < length (tokens st) \<and> tokens st ! 0 = ''handler''
      then (case child_block st of
          None \<Rightarrow> register_statements sts s
        | Some rConfig \<Rightarrow> bind_res (register_locations (tokens st ! 1) rConfig s) (register_statements sts))
      else register_statements sts s)"

definition register_routes_from_config :: "registry \<Rightarrow> registry result" where
  "register_routes_from_config s = register_statements (config_of (fst s)) s"

definition register_default_header :: "string \<Rightarrow> string \<Rightarrow> router \<Rightarrow> router" where
  "register_default_header header_name header_value r =
     r\<lparr>headers := um_assign (headers r) header_name header_value\<rparr>"

definition get_header :: "router \<Rightarrow> string \<Rightarrow> string" where
  "get_header r name = um_get (headers r) name"

subsection \<open>Choosing a handler\<close>

text \<open>The last block of the given handler; \<open>None\<close> is the null pointer.\<close>

fun get_handler_config_loop :: "string \<Rightarrow> config \<Rightarrow> config option \<Rightarrow> config option result" where
  "get_handler_config_loop name [] output = Inr output"
| "get_handler_config_loop name (st # sts) output =
     (case child_block st of
        None \<Rightarrow> get_handler_config_loop name sts output
      | Some b \<Rightarrow> bind_res (vec_at (tokens st) 0) (\<lambda>t0.
          get_handler_config_loop name sts
            (if t0 = ''handler'' \<and> 1 < length (tokens st) \<and> tokens st ! 1 = name then Some b else output)))"

definition get_handler_config :: "router \<Rightarrow> string \<Rightarrow> config option result" where
  "get_handler_config r handler_name = get_handler_config_loop handler_name (config_of r) None"

text \<open>The inner loop compares every character; the counter it also keeps is never used.\<close>

definition lpm_step :: "string \<Rightarrow> string \<Rightarrow> string \<times> string \<Rightarrow> string" where
  "lpm_step u longest entry = (case entry of (p, h) \<Rightarrow>
     if length u < length p then longest
     else if list_all (\<lambda>i. p ! i = u ! i) [0..<length p]
     then (if length longest < length p then p else longest)
     else longest)"

definition longest_prefix_match :: "router \<Rightarrow> string \<Rightarrow> string" where
  "longest_prefix_match r u = foldl (lpm_step u) '''' (route_map r)"

primrec validProxy :: "config \<Rightarrow> string \<Rightarrow> bool result" where
  "validProxy [] name = Inr False"
| "validProxy (st # sts) name =
     bind_res (vec_at (tokens st) 0) (\<lambda>t0.
       if t0 = ''location''
       then bind_res (vec_at (tokens st) 1) (\<lambda>t1. if t1 = name then Inr True else validProxy sts name)
       else validProxy sts name)"

definition get_route_handler :: "router \<Rightarrow> string \<Rightarrow> string result" where
  "get_route_handler r u = (case um_find (route_map r) u of
       Some h \<Rightarrow> Inr h
     | None \<Rightarrow> bind_res (get_handler_config r ''proxy'') (\<lambda>proxy_config.
         case proxy_config of
           None \<Rightarrow> Inr ''default''
         | Some c \<Rightarrow> bind_res (validProxy c u) (\<lambda>v. Inr (if v then ''proxy'' else ''default''))))"

datatype handler =
    Echo_handler
  | Static_file_handler string
  | Status_handler
  | Reverse_proxy_handler proxy
  | Meme_handler meme_handler
  | Health_handler
  | Default_handler

record 'w environment =
  files :: file_system
  network :: "'w network"
  database :: "'w sqlite"
  random_uuid :: "('w, string) io"

text \<open>
  The factory methods. The base class keeps the configuration and the root, which only the static, the
  proxy and the meme handler read, in their constructors.
\<close>

definition default_create_handler :: "config option \<Rightarrow> string \<Rightarrow> handler" where
  [simp]: "default_create_handler conf root_path = Default_handler"

definition echo_create_handler :: "config option \<Rightarrow> string \<Rightarrow> handler" where
  [simp]: "echo_create_handler conf root_path = Echo_handler"

definition health_create_handler :: "config option \<Rightarrow> string \<Rightarrow> handler" where
  [simp]: "health_create_handler conf root_path = Health_handler"

definition status_create_handler :: "config option \<Rightarrow> string \<Rightarrow> handler" where
  [simp]: "status_create_handler conf root_path = Status_handler"

definition static_create_handler :: "config option \<Rightarrow> string \<Rightarrow> handler result" where
  "static_create_handler conf root_path =
     bind_res (new_static_file_handler conf root_path) (\<lambda>path. Inr (Static_file_handler path))"

definition proxy_create_handler :: "config option \<Rightarrow> string \<Rightarrow> handler result" where
  "proxy_create_handler conf root_path =
     bind_res (new_reverse_proxy_handler conf root_path) (\<lambda>h. Inr (Reverse_proxy_handler h))"

definition meme_create_handler :: "'w environment \<Rightarrow> config option \<Rightarrow> string \<Rightarrow> ('w, handler) io" where
  "meme_create_handler env conf root_path =
     io_bind (new_meme_handler (database env) conf root_path) (\<lambda>h. io_return (Meme_handler h))"

lemmas create_handler_defs = static_create_handler_def proxy_create_handler_def meme_create_handler_def

definition select_handler :: "'w environment \<Rightarrow> router \<Rightarrow> string \<Rightarrow> ('w, handler) io" where
  "select_handler env r u =
     io_bind (io_lift (get_route_handler r (longest_prefix_match r u))) (\<lambda>name.
       let create = (\<lambda>n mk. io_bind (io_lift (get_handler_config r n)) (\<lambda>c. mk c (server_root r)))
       in if name = ''echo'' then create ''echo'' (\<lambda>c root. io_return (echo_create_handler c root))
          else if name = ''static1'' then create ''static1'' (\<lambda>c root. io_lift (static_create_handler c root))
          else if name = ''static2'' then create ''static2'' (\<lambda>c root. io_lift (static_create_handler c root))
          else if name = ''webMeme'' then create ''webMeme'' (\<lambda>c root. io_lift (static_create_handler c root))
          else if name = ''imageMeme'' then create ''imageMeme'' (\<lambda>c root. io_lift (static_create_handler c root))
          else if name = ''status'' then create ''status'' (\<lambda>c root. io_return (status_create_handler c root))
          else if name = ''proxy'' then create ''proxy'' (\<lambda>c root. io_lift (proxy_create_handler c root))
          else if name = ''meme'' then create ''meme'' (meme_create_handler env)
          else if name = ''health'' then create ''health'' (\<lambda>c root. io_return (health_create_handler c root))
          else create ''default'' (\<lambda>c root. io_return (default_create_handler c root)))"

subsection \<open>Routing a request\<close>

fun handle_request ::
    "'w environment \<Rightarrow> server_status_recorder \<Rightarrow> handler \<Rightarrow> request \<Rightarrow> ('w, response) io" where
  "handle_request env rec Echo_handler req = io_return (echo_handle_request req)"
| "handle_request env rec (Static_file_handler path) req = io_return (static_handle_request (files env) path req)"
| "handle_request env rec Status_handler req = io_lift (status_handle_request (rec, rec, rec) req)"
| "handle_request env rec (Reverse_proxy_handler h) req = proxy_handle_request (network env) h req"
| "handle_request env rec (Meme_handler h) req = meme_handle_request (database env) (random_uuid env) req"
| "handle_request env rec Health_handler req = io_return (health_handle_request req)"
| "handle_request env rec Default_handler req = io_return (default_handle_request req)"

definition apply_default_headers :: "router \<Rightarrow> response \<Rightarrow> response" where
  "apply_default_headers r res = foldl (\<lambda>res (n, v). set_header n v res) res (headers r)"

text \<open>
  The response and the line that is logged; the state is the recorder and the outside world. What a
  request does to them before it throws remains.
\<close>

type_synonym 'w shared = "server_status_recorder \<times> 'w"

definition route_request :: "'w environment \<Rightarrow> router \<Rightarrow> request \<Rightarrow> ('w shared, response \<times> string) io" where
  "route_request env r req =
     io_bind (on_snd (select_handler env r (get_uri req))) (\<lambda>rh.
     io_bind (\<lambda>(rec, w). on_snd (handle_request env rec rh req) (rec, w)) (\<lambda>out.
     io_bind (\<lambda>(rec, w). (Inr (), (request_recorder (get_uri req) (get_status_code out) rec, w))) (\<lambda>_.
     io_bind (io_lift (get_route_handler r (longest_prefix_match r (get_uri req)))) (\<lambda>name.
     io_return (apply_default_headers r out,
       ''ResponseCode::'' @ to_dec (unat (get_status_code out)) @ ''::RequestHandler::'' @ name)))))"

subsection \<open>The longest prefix\<close>

lemma list_all_prefix: "length p \<le> length u \<Longrightarrow> list_all (\<lambda>i. p ! i = u ! i) [0..<length p] \<longleftrightarrow> prefix p u"
proof
  assume le: "length p \<le> length u" and all: "list_all (\<lambda>i. p ! i = u ! i) [0..<length p]"
  have "p = take (length p) u"
    by (rule nth_equalityI) (use le all in \<open>auto simp: list_all_iff\<close>)
  then show "prefix p u" by (metis take_is_prefix)
next
  assume "prefix p u"
  then show "list_all (\<lambda>i. p ! i = u ! i) [0..<length p]"
    by (auto simp: prefix_def list_all_iff nth_append)
qed

lemma lpm_step_eq: "lpm_step u l (p, h) = (if prefix p u \<and> length l < length p then p else l)"
  using list_all_prefix [of p u] prefix_length_le [of p u] by (auto simp: lpm_step_def not_less)

definition longest_of :: "string \<Rightarrow> string set \<Rightarrow> string \<Rightarrow> bool" where
  "longest_of u ps l \<longleftrightarrow> prefix l u \<and> (l = '''' \<or> l \<in> ps) \<and> (\<forall>p\<in>ps. prefix p u \<longrightarrow> length p \<le> length l)"

lemma longest_of_unique: "longest_of u ps l \<Longrightarrow> longest_of u ps l' \<Longrightarrow> l = l'"
proof -
  assume l: "longest_of u ps l" and l': "longest_of u ps l'"
  have "length l \<le> length l'" using l l' by (auto simp: longest_of_def)
  moreover have "length l' \<le> length l" using l l' by (auto simp: longest_of_def)
  ultimately show "l = l'"
    using l l' unfolding longest_of_def by (metis le_antisym prefix_length_prefix prefix_order.antisym order_refl)
qed

lemma lpm_fold: "longest_of u ps l \<Longrightarrow> longest_of u (ps \<union> fst ` set m) (foldl (lpm_step u) l m)"
proof (induction m arbitrary: ps l)
  case (Cons e m)
  obtain p h where e: "e = (p, h)" by (cases e)
  have "longest_of u (insert p ps) (lpm_step u l (p, h))"
    using Cons.prems by (auto simp: longest_of_def lpm_step_eq)
  from Cons.IH [OF this] show ?case by (simp add: e)
qed simp

lemma lpm_longest: "longest_of u (fst ` set (route_map r)) (longest_prefix_match r u)"
  using lpm_fold [of u "{}" "''''" "route_map r"]
  by (simp add: longest_prefix_match_def longest_of_def [of u "{}"])

end
