(* ===== verification/Proxy_Props.thy ===== *)
theory Proxy_Props
  imports Reverse_Proxy
begin

text \<open>
  The properties of the proxy handler: what is read from a reply, however it arrives, what is asked
  for which URI, what a configuration registers, and what the client is answered.
\<close>

subsection \<open>Reading until a delimiter\<close>

lemma read_until_some:
  "read_until d b ps = Some (b', ps') \<Longrightarrow> b' @ concat ps' = b @ concat ps \<and> sublist d b'"
  by (induction d b ps rule: read_until.induct) (auto split: if_splits)

lemma read_until_found: "sublist d (b @ concat ps) \<Longrightarrow> \<exists>b' ps'. read_until d b ps = Some (b', ps')"
  by (induction d b ps rule: read_until.induct) auto

lemma read_until_None: "read_until d b ps = None \<longleftrightarrow> \<not> sublist d (b @ concat ps)"
proof
  assume "read_until d b ps = None"
  then show "\<not> sublist d (b @ concat ps)" using read_until_found by fastforce
next
  assume "\<not> sublist d (b @ concat ps)"
  then show "read_until d b ps = None"
    using read_until_some [of d b ps] by (cases "read_until d b ps") (auto simp: sublist_def, metis append.assoc)
qed

text \<open>A buffer that starts a text and contains a delimiter holds the text up to its first delimiter.\<close>

lemma prefix_by_length: "b @ rest = h @ t \<Longrightarrow> length h \<le> length b \<Longrightarrow> \<exists>b'. b = h @ b'"
  by (metis append_eq_append_conv_if append_take_drop_id)

lemma line_in_buffer:
  assumes "LF \<notin> set l" "b @ rest = l @ CRLF @ t" "sublist CRLF b"
  shows "\<exists>b'. b = l @ CRLF @ b' \<and> t = b' @ rest"
proof -
  obtain p q where b: "b = p @ CR # LF # q" using assms(3) by (auto simp: sublist_def)
  have "length (l @ CRLF) \<le> length b"
  proof (cases "LF \<in> set p")
    case False
    have "(l @ [CR]) @ LF # t = (p @ [CR]) @ LF # (q @ rest)" using assms(2) b by simp
    from split_unique [OF this, of "\<lambda>c. c \<noteq> LF"] assms(1) False have "l @ [CR] = p @ [CR]" by auto
    then show ?thesis by (simp add: b)
  next
    case True
    then obtain p1 p2 where p: "p = p1 @ LF # p2" "LF \<notin> set p1" by (meson split_list_first)
    have "(l @ [CR]) @ LF # t = p1 @ LF # (p2 @ CR # LF # q @ rest)" using assms(2) b p(1) by simp
    from split_unique [OF this, of "\<lambda>c. c \<noteq> LF"] assms(1) p(2) have "l @ [CR] = p1" by auto
    then show ?thesis using p(1) by (auto simp: b)
  qed
  with assms(2) prefix_by_length [of b rest "l @ CRLF" t] obtain b' where "b = (l @ CRLF) @ b'" by auto
  then show ?thesis using assms(2) by auto
qed

definition header_block :: "string list \<Rightarrow> string" where
  "header_block hs = concat (map (\<lambda>h. h @ CRLF) hs) @ CRLF"

definition clean_lines :: "string list \<Rightarrow> bool" where
  "clean_lines hs \<longleftrightarrow> (\<forall>h\<in>set hs. h \<noteq> [] \<and> LF \<notin> set h)"

lemma header_block_simps [simp]:
  "header_block [] = CRLF" "header_block (h # hs) = h @ CR # LF # header_block hs"
  by (simp_all add: header_block_def)

lemma header_block_end:
  "clean_lines hs \<Longrightarrow> header_block hs @ body = p @ CR # LF # CR # LF # q \<Longrightarrow> length (header_block hs) \<le> length p + 4"
proof (induction hs arbitrary: p)
  case (Cons h hs)
  have h: "LF \<notin> set h" "clean_lines hs" using Cons.prems(1) by (auto simp: clean_lines_def)
  show ?case
  proof (cases "LF \<in> set p")
    case False
    have "(h @ [CR]) @ LF # (header_block hs @ body) = (p @ [CR]) @ LF # (CR # LF # q)" using Cons.prems(2) by simp
    from split_unique [OF this, of "\<lambda>c. c \<noteq> LF"] h False
    have eq: "h = p" "header_block hs @ body = CR # LF # q" by auto
    have "hs = []"
    proof (rule ccontr)
      assume "hs \<noteq> []"
      then obtain h' hs' where hs: "hs = h' # hs'" by (cases hs) auto
      then have "(h' @ [CR]) @ LF # (header_block hs' @ body) = [CR] @ LF # q" using eq(2) by simp
      from split_unique [OF this, of "\<lambda>c. c \<noteq> LF"] h(2) hs show False by (auto simp: clean_lines_def)
    qed
    then show ?thesis by (simp add: eq(1))
  next
    case True
    then obtain p1 p2 where p: "p = p1 @ LF # p2" "LF \<notin> set p1" by (meson split_list_first)
    have "(h @ [CR]) @ LF # (header_block hs @ body) = p1 @ LF # (p2 @ CR # LF # CR # LF # q)"
      using Cons.prems(2) p(1) by simp
    from split_unique [OF this, of "\<lambda>c. c \<noteq> LF"] h(1) p(2)
    have "h @ [CR] = p1" "header_block hs @ body = p2 @ CR # LF # CR # LF # q" by auto
    with Cons.IH [OF h(2) this(2)] show ?thesis by (auto simp: p(1))
  qed
qed simp

lemma headers_in_buffer:
  assumes "clean_lines hs" "b @ rest = header_block hs @ body" "sublist (CRLF @ CRLF) b"
  shows "\<exists>b'. b = header_block hs @ b' \<and> body = b' @ rest"
proof -
  obtain p q where b: "b = p @ CR # LF # CR # LF # q" using assms(3) by (auto simp: sublist_def)
  have "header_block hs @ body = p @ CR # LF # CR # LF # (q @ rest)" using assms(2) b by simp
  from header_block_end [OF assms(1) this] have "length (header_block hs) \<le> length b" by (simp add: b)
  from prefix_by_length [OF assms(2) this] obtain b' where "b = header_block hs @ b'" by blast
  then show ?thesis using assms(2) by auto
qed

lemma header_block_delim: "hs \<noteq> [] \<Longrightarrow> sublist (CRLF @ CRLF) (header_block hs @ body)"
proof -
  assume "hs \<noteq> []"
  then obtain hs' h where "hs = hs' @ [h]" by (cases hs rule: rev_cases) auto
  then have "header_block hs @ body = (concat (map (\<lambda>h. h @ CRLF) hs') @ h) @ (CRLF @ CRLF) @ body"
    by (simp add: header_block_def)
  then show ?thesis unfolding sublist_def by blast
qed

subsection \<open>Extractions\<close>

lemma in_word_eq:
  assumes "v \<noteq> []" "\<forall>c\<in>set v. \<not> is_space c" "is_space c"
  shows "in_word (new_istream (v @ c # t)) = (v, new_istream (c # t))"
proof -
  have "dropWhile is_space (v @ c # t) = v @ c # t" using assms(1,2) by (cases v) auto
  moreover have "takeWhile (\<lambda>c. \<not> is_space c) (v @ c # t) = v" "dropWhile (\<lambda>c. \<not> is_space c) (v @ c # t) = c # t"
    using assms(2,3) by (simp_all add: takeWhile_append_stop dropWhile_append_stop)
  ultimately show ?thesis by (simp add: in_word_def new_istream_def good_def Let_def)
qed

lemma takeWhile_stop_hd: "\<forall>x\<in>set xs. P x \<Longrightarrow> ys \<noteq> [] \<Longrightarrow> \<not> P (hd ys) \<Longrightarrow>
    takeWhile P (xs @ ys) = xs \<and> dropWhile P (xs @ ys) = ys"
  by (cases ys) (simp_all add: takeWhile_append_stop dropWhile_append_stop)

lemma in_uint_eq:
  assumes "n < 2 ^ 32" "t \<noteq> []" "\<not> is_digit (hd t)"
  shows "in_uint (new_istream (CHR '' '' # to_dec n @ t)) = (Some (of_nat n), new_istream t)"
proof -
  obtain c ds where c: "to_dec n = c # ds" by (cases "to_dec n") auto
  have blank: "is_space (CHR '' '')" by (simp add: is_space_def)
  have dig: "\<forall>x\<in>set (to_dec n). is_digit x" by (auto dest: to_dec_digits)
  then have d: "is_digit c" by (simp add: c)
  have sp: "dropWhile is_space (to_dec n @ t) = to_dec n @ t"
    using digit_not_space [OF d] by (simp add: c)
  have sign: "split_sign (to_dec n @ t) = (False, to_dec n @ t)"
    using digit_no_sign [OF d] by (simp add: c split_sign_def)
  have tw: "takeWhile is_digit (to_dec n @ t) = to_dec n" "dropWhile is_digit (to_dec n @ t) = t"
    using takeWhile_stop_hd [OF dig assms(2,3)] by simp_all
  have ne: "to_dec n @ t \<noteq> []" by simp
  show ?thesis
    using assms(1,2) sign tw ne
    by (simp add: in_uint_def new_istream_def good_def blank sp Let_def)
qed

lemma in_line_eq: "LF \<notin> set l \<Longrightarrow> in_line (new_istream (l @ LF # t)) = (l, new_istream t)"
proof -
  assume "LF \<notin> set l"
  then have "takeWhile (\<lambda>c. c \<noteq> LF) (l @ LF # t) = l" "dropWhile (\<lambda>c. c \<noteq> LF) (l @ LF # t) = LF # t"
    by (auto intro: takeWhile_append_stop dropWhile_append_stop)
  then show ?thesis by (simp add: in_line_def new_istream_def good_def Let_def)
qed

definition headers_mime :: "string list \<Rightarrow> string \<Rightarrow> string" where
  "headers_mime hs mime = foldl (\<lambda>m h. header_mime (h @ [CR]) m) mime hs"

lemma read_headers_block:
  "clean_lines hs \<Longrightarrow> read_headers mime (new_istream (header_block hs @ b)) = (headers_mime hs mime, new_istream b)"
proof (induction hs arbitrary: mime)
  case Nil
  have "in_line (new_istream ([CR] @ LF # b)) = ([CR], new_istream b)" by (rule in_line_eq) simp
  then show ?case by (subst read_headers.simps) (simp add: headers_mime_def)
next
  case (Cons h hs)
  have h: "h \<noteq> []" "LF \<notin> set (h @ [CR])" "clean_lines hs" using Cons.prems by (auto simp: clean_lines_def)
  have l: "in_line (new_istream ((h @ [CR]) @ LF # (header_block hs @ b))) = (h @ [CR], new_istream (header_block hs @ b))"
    by (rule in_line_eq) (rule h)
  have ok: "\<not> failbit (new_istream t)" for t by (simp add: new_istream_def)
  show ?case
    using l Cons.IH [OF h(3)] h(1) ok by (subst read_headers.simps) (simp add: headers_mime_def)
qed

subsection \<open>Replies\<close>

text \<open>A status line: the version, the code, and a message that does not start with a digit.\<close>

definition reply_line :: "string \<Rightarrow> nat \<Rightarrow> string \<Rightarrow> string" where
  "reply_line v n msg = v @ '' '' @ to_dec n @ msg"

definition reply_line_ok :: "string \<Rightarrow> nat \<Rightarrow> string \<Rightarrow> bool" where
  "reply_line_ok v n msg \<longleftrightarrow> v \<noteq> [] \<and> list_all (\<lambda>c. \<not> is_space c) v \<and> n < 2 ^ 32 \<and> LF \<notin> set msg \<and>
     (msg = [] \<or> \<not> is_digit (hd msg))"

lemma not_space_LF: "\<not> is_space c \<Longrightarrow> c \<noteq> LF"
  by (auto simp: is_space_def)

lemma digit_not_LF: "is_digit c \<Longrightarrow> c \<noteq> LF"
  by (auto simp: is_digit_def)

lemma reply_line_no_LF: "reply_line_ok v n msg \<Longrightarrow> LF \<notin> set (reply_line v n msg)"
  by (auto simp: reply_line_ok_def reply_line_def list_all_iff dest: to_dec_digits digit_not_LF not_space_LF)

lemma parse_reply_line:
  assumes "reply_line_ok v n msg"
  shows "in_word (new_istream (reply_line v n msg @ CRLF @ t)) = (v, new_istream ('' '' @ to_dec n @ msg @ CRLF @ t))"
    and "in_uint (new_istream ('' '' @ to_dec n @ msg @ CRLF @ t)) = (Some (of_nat n), new_istream (msg @ CRLF @ t))"
    and "in_line (new_istream (msg @ CRLF @ t)) = (msg @ [CR], new_istream t)"
proof -
  have v: "v \<noteq> []" "\<forall>c\<in>set v. \<not> is_space c" "n < 2 ^ 32" "LF \<notin> set (msg @ [CR])"
    using assms by (auto simp: reply_line_ok_def list_all_iff)
  have sp: "is_space (CHR '' '')" by (simp add: is_space_def)
  show "in_word (new_istream (reply_line v n msg @ CRLF @ t)) = (v, new_istream ('' '' @ to_dec n @ msg @ CRLF @ t))"
    using in_word_eq [OF v(1,2) sp, of "to_dec n @ msg @ CRLF @ t"] by (simp add: reply_line_def)
  have "\<not> is_digit CR" by (simp add: is_digit_def)
  then have "\<not> is_digit (hd (msg @ CRLF @ t))" using assms by (cases msg) (auto simp: reply_line_ok_def)
  from in_uint_eq [OF v(3) _ this]
  show "in_uint (new_istream ('' '' @ to_dec n @ msg @ CRLF @ t)) = (Some (of_nat n), new_istream (msg @ CRLF @ t))"
    by simp
  show "in_line (new_istream (msg @ CRLF @ t)) = (msg @ [CR], new_istream t)"
    using in_line_eq [OF v(4), of t] by simp
qed

text \<open>What is left to read once the status line is parsed.\<close>

lemma read_reply_line:
  assumes "reply_line_ok v n msg" "concat pieces = reply_line v n msg @ CRLF @ t"
  obtains b pieces' where "b @ concat pieces' = t"
    "read_reply (pieces, ending) h = (case read_until (CRLF @ CRLF) b pieces' of
        None \<Rightarrow> Inl (stream_fault ending)
      | Some (b', pieces'') \<Rightarrow>
          (case read_headers (mime_type h) (new_istream b') of (mime, s4) \<Rightarrow>
            if ending \<noteq> Eof then Inl (stream_fault ending)
            else Inr (buf s4 @ concat pieces'', of_nat n, h\<lparr>mime_type := mime\<rparr>)))"
proof -
  have "sublist CRLF ([] @ concat pieces)" unfolding assms(2) sublist_def by auto
  from read_until_found [OF this] obtain b0 ps where u: "read_until CRLF [] pieces = Some (b0, ps)" by blast
  note b0 = read_until_some [OF u]
  have "b0 @ concat ps = reply_line v n msg @ CRLF @ t" using b0 assms(2) by simp
  from line_in_buffer [OF reply_line_no_LF [OF assms(1)] this] b0
  obtain b where b: "b0 = reply_line v n msg @ CRLF @ b" "t = b @ concat ps" by blast
  have nb: "new_istream b\<lparr>buf := x\<rparr> = new_istream x" "buf (new_istream b) = b" for x
    by (simp_all add: new_istream_def)
  have "read_reply (pieces, ending) h = (case read_until (CRLF @ CRLF) b ps of
        None \<Rightarrow> Inl (stream_fault ending)
      | Some (b', pieces'') \<Rightarrow>
          (case read_headers (mime_type h) (new_istream b') of (mime, s4) \<Rightarrow>
            if ending \<noteq> Eof then Inl (stream_fault ending)
            else Inr (buf s4 @ concat pieces'', of_nat n, h\<lparr>mime_type := mime\<rparr>)))"
    unfolding read_reply_def prod.case u option.case b(1) Let_def parse_reply_line [OF assms(1)] nb by (rule refl)
  with b(2) show thesis by (intro that [of b ps]) simp_all
qed

lemma read_reply_eq:
  assumes "reply_line_ok v n msg" "clean_lines hs" "hs \<noteq> []"
    and "concat pieces = reply_line v n msg @ CRLF @ header_block hs @ body"
  shows "read_reply (pieces, Eof) h = Inr (body, of_nat n, h\<lparr>mime_type := headers_mime hs (mime_type h)\<rparr>)"
proof -
  obtain b ps where b: "b @ concat ps = header_block hs @ body"
    and r: "read_reply (pieces, Eof) h = (case read_until (CRLF @ CRLF) b ps of
        None \<Rightarrow> Inl (stream_fault Eof)
      | Some (b', pieces'') \<Rightarrow>
          (case read_headers (mime_type h) (new_istream b') of (mime, s4) \<Rightarrow>
            if Eof \<noteq> Eof then Inl (stream_fault Eof)
            else Inr (buf s4 @ concat pieces'', of_nat n, h\<lparr>mime_type := mime\<rparr>)))"
    by (rule read_reply_line [OF assms(1,4)])
  have "sublist (CRLF @ CRLF) (b @ concat ps)" unfolding b by (rule header_block_delim [OF assms(3)])
  from read_until_found [OF this] obtain b' ps' where u: "read_until (CRLF @ CRLF) b ps = Some (b', ps')" by blast
  note bp = read_until_some [OF u]
  from bp b have "b' @ concat ps' = header_block hs @ body" by simp
  from headers_in_buffer [OF assms(2) this] bp obtain x where x: "b' = header_block hs @ x" "body = x @ concat ps'"
    by blast
  have "buf (new_istream x) = x" by (simp add: new_istream_def)
  then show ?thesis
    unfolding r u option.case prod.case x(1) read_headers_block [OF assms(2)] by (simp add: x(2))
qed

text \<open>
  C33: the body, the status code and the content type that are read from a well-formed reply with at
  least one header do not depend on how the network cuts the reply into pieces: they are those of
  the text.
\<close>

theorem reply_any_pieces:
  assumes "reply_line_ok v n msg" "clean_lines hs" "hs \<noteq> []"
    and "concat pieces = reply_line v n msg @ CRLF @ header_block hs @ body"
  shows "read_reply (pieces, Eof) h = Inr (body, of_nat n, h\<lparr>mime_type := headers_mime hs (mime_type h)\<rparr>)"
  using assms by (rule read_reply_eq)

definition sample_reply :: string where
  "sample_reply = ''HTTP/1.1 200 OK'' @ CRLF @ ''Content-Type: text/html; charset=utf-8'' @ CRLF @ CRLF @ ''<p>'' @ CRLF @ CRLF"

lemma sample_line: "reply_line_ok ''HTTP/1.1'' 200 '' OK''"
proof -
  have "list_all (\<lambda>c. \<not> is_space c) ''HTTP/1.1''" "LF \<notin> set '' OK''" "\<not> is_digit (CHR '' '')" by code_simp+
  then show ?thesis by (simp add: reply_line_ok_def)
qed

lemma sample_reply_parts:
  "clean_lines [''Content-Type: text/html; charset=utf-8'']"
  "sample_reply = reply_line ''HTTP/1.1'' 200 '' OK'' @ CRLF @
     header_block [''Content-Type: text/html; charset=utf-8''] @ ''<p>'' @ CRLF @ CRLF"
  "headers_mime [''Content-Type: text/html; charset=utf-8''] [] = ''text/html''"
proof -
  have "LF \<notin> set ''Content-Type: text/html; charset=utf-8''" by code_simp
  then show "clean_lines [''Content-Type: text/html; charset=utf-8'']" by (simp add: clean_lines_def)
  have "to_dec 200 = ''200''" by code_simp
  then show "sample_reply = reply_line ''HTTP/1.1'' 200 '' OK'' @ CRLF @
     header_block [''Content-Type: text/html; charset=utf-8''] @ ''<p>'' @ CRLF @ CRLF"
    by (simp add: sample_reply_def reply_line_def)
  show "headers_mime [''Content-Type: text/html; charset=utf-8''] [] = ''text/html''" by code_simp
qed

definition sample_proxy :: proxy where
  "sample_proxy = \<lparr>location2proxy = um_insert um_empty ''/ucla'' ''www.ucla.edu'', mime_type = '''',
     port_num = Some 80, redirect = False\<rparr>"

lemma concat_single: "concat (map (\<lambda>c. [c]) s) = s"
  by (induction s) auto

theorem reply_any_pieces_witness:
  "read_reply (map (\<lambda>c. [c]) sample_reply, Eof) sample_proxy =
     Inr (''<p>'' @ CRLF @ CRLF, 200, sample_proxy\<lparr>mime_type := ''text/html''\<rparr>)"
proof -
  have m: "mime_type sample_proxy = ''''" by (simp add: sample_proxy_def)
  show ?thesis
    using reply_any_pieces [OF sample_line sample_reply_parts(1) _ trans [OF concat_single sample_reply_parts(2)], of sample_proxy]
    by (simp add: m sample_reply_parts(3))
qed

text \<open>
  A reply with no headers is never read: unless its body contains an empty line, the wait for
  the end of the headers goes on to the end of the stream and throws, however the reply is cut, or
  never ends when the stream does not.
\<close>

theorem headerless_reply_throws:
  assumes "reply_line_ok v n msg" "\<not> sublist (CRLF @ CRLF) (CRLF @ body)"
    and "concat pieces = reply_line v n msg @ CRLF @ CRLF @ body"
  shows "read_reply (pieces, ending) h = Inl (stream_fault ending)"
proof -
  obtain b ps where b: "b @ concat ps = CRLF @ body"
    and r: "read_reply (pieces, ending) h = (case read_until (CRLF @ CRLF) b ps of
        None \<Rightarrow> Inl (stream_fault ending)
      | Some (b', pieces'') \<Rightarrow>
          (case read_headers (mime_type h) (new_istream b') of (mime, s4) \<Rightarrow>
            if ending \<noteq> Eof then Inl (stream_fault ending)
            else Inr (buf s4 @ concat pieces'', of_nat n, h\<lparr>mime_type := mime\<rparr>)))"
    by (rule read_reply_line [OF assms(1,3)])
  have "read_until (CRLF @ CRLF) b ps = None" unfolding read_until_None b by (rule assms(2))
  then show ?thesis unfolding r by simp
qed

theorem headerless_reply_throws_witness:
  "read_reply ([reply_line ''HTTP/1.1'' 200 '' OK'' @ CRLF @ CRLF, ''hello''], Eof) sample_proxy = Inl (Raise System_Error)"
proof -
  have "\<not> sublist (CRLF @ CRLF) (CRLF @ ''hello'')" by code_simp
  from headerless_reply_throws [OF sample_line this] show ?thesis by (simp add: stream_fault_def)
qed

subsection \<open>What is asked and answered\<close>

lemma construct_get_request:
  assumes "CHR ''/'' \<notin> set seg" "rest = [] \<or> hd rest = CHR ''/''" "seg @ rest \<noteq> []"
    and path: "path = (if rest \<noteq> [] \<and> last rest = CHR ''/'' then rest else rest @ ''/'')"
  shows "constructGetRequest net (CHR ''/'' # seg @ rest) h =
    (case um_find (location2proxy h) (CHR ''/'' # seg) of
       None \<Rightarrow> io_lift (Inl Undefined)
     | Some host_str \<Rightarrow> sendGetRequest net (c_string host_str) (c_string path) h)"
proof -
  have u': "(if last (seg @ rest) \<noteq> CHR ''/'' then (seg @ rest) @ ''/'' else seg @ rest) = seg @ path"
  proof (cases "rest = []")
    case True
    then have "last seg \<in> set seg" using assms(3) by auto
    then show ?thesis using assms(1) path True by auto
  qed (simp add: path)
  have p: "path \<noteq> []" "hd path = CHR ''/''" using assms(2) path by (cases rest; auto)+
  have "\<forall>x\<in>set seg. x \<noteq> CHR ''/''" "\<not> hd path \<noteq> CHR ''/''" using assms(1) p(2) by auto
  note tw = conjunct1 [OF takeWhile_stop_hd [OF this(1) p(1) this(2)]]
    conjunct2 [OF takeWhile_stop_hd [OF this(1) p(1) this(2)]]
  show ?thesis
    unfolding constructGetRequest_def list.sel u' Let_def tw using assms(3) by auto
qed

text \<open>
  C19: a request whose first segment is a location of the configuration is sent to the host of that
  location, on the configured port, with the rest of the path ended by a slash, by a handler that has
  just been constructed, as every request has its own. When a well-formed reply with at least one
  header comes back and ends, in whatever pieces, the client gets status 200: with the body and the
  content type of the reply when its status is not 301 or 302, and with its own request as plain text,
  instead of the reply, when it is.
\<close>

theorem proxy_relays:
  assumes "get_uri req = CHR ''/'' # seg @ rest" "CHR ''/'' \<notin> set seg" "rest = [] \<or> hd rest = CHR ''/''" "seg @ rest \<noteq> []"
    and "um_find (location2proxy h) (CHR ''/'' # seg) = Some host" "port_num h = Some p" "\<not> redirect h"
    and "net (c_string host) (int_to_string p)
      (get_request_text (c_string host) (c_string (if rest \<noteq> [] \<and> last rest = CHR ''/'' then rest else rest @ ''/''))) w =
      (Inr (pieces, Eof), w')"
    and "reply_line_ok v n msg" "clean_lines hs" "hs \<noteq> []"
    and "concat pieces = reply_line v n msg @ CRLF @ header_block hs @ body"
  shows "\<exists>resp. proxy_handle_request net h req w = (Inr resp, w') \<and> get_status_code resp = 200 \<and>
    (Response.get_body resp, Response.get_header resp ''Content-Type'') =
      (if n = 301 \<or> n = 302 then (c_string (get_raw_request req), ''text/plain'')
       else (body, headers_mime hs (mime_type h)))"
proof -
  have "unat (of_nat n :: 32 word) = n" using assms(9) by (simp add: reply_line_ok_def unat_of_nat take_bit_nat_eq_self)
  then have code: "(of_nat n :: 32 word) = 301 \<longleftrightarrow> n = 301" "(of_nat n :: 32 word) = 302 \<longleftrightarrow> n = 302"
    by (auto simp: word_unat_eq_iff)
  define h' where "h' = h\<lparr>mime_type := headers_mime hs (mime_type h)\<rparr>"
  have reply: "read_reply (pieces, Eof) h = Inr (body, of_nat n, h')"
    unfolding h'_def by (rule read_reply_eq) (rule assms)+
  have net: "net (c_string host) (int_to_string p)
      (get_request_text (c_string host) (c_string (if rest \<noteq> [] \<and> last rest = CHR ''/'' then rest else rest @ ''/''))) w =
      (Inr (pieces, Eof), w')" by (rule assms)
  have "constructGetRequest net (get_uri req) h w =
      (Inr (body, if n = 301 \<or> n = 302 then h'\<lparr>redirect := True\<rparr> else h'), w')"
    unfolding assms(1) construct_get_request [OF assms(2-4) refl] assms(5) option.case sendGetRequest_def assms(6)
    by (simp add: net reply code)
  then show ?thesis
    using assms(7) by (auto simp: proxy_handle_request_def proxy_response_def h'_def handler_simps)
qed

definition sample_network :: "nat network" where
  "sample_network host port request = (\<lambda>n. (Inr (map (\<lambda>c. [c]) sample_reply, Eof), Suc n))"

definition sample_get :: "string \<Rightarrow> request" where
  "sample_get u = (new_request [] [])\<lparr>http_method := ''GET'', uri := u\<rparr>"

lemma sample_get_uri [simp]: "get_uri (sample_get u) = u"
  by (simp add: sample_get_def get_uri_def)

theorem proxy_relays_witness:
  "\<exists>resp. proxy_handle_request sample_network sample_proxy (sample_get ''/ucla/a'') 0 = (Inr resp, 1) \<and>
     Response.get_body resp = ''<p>'' @ CRLF @ CRLF \<and> Response.get_header resp ''Content-Type'' = ''text/html''"
proof -
  have u: "get_uri (sample_get ''/ucla/a'') = CHR ''/'' # ''ucla'' @ ''/a''" by simp
  have h: "um_find (location2proxy sample_proxy) (CHR ''/'' # ''ucla'') = Some ''www.ucla.edu''"
    "port_num sample_proxy = Some 80" "\<not> redirect sample_proxy" "mime_type sample_proxy = ''''"
    by (simp_all add: sample_proxy_def um_defs)
  have net: "sample_network x y z 0 = (Inr (map (\<lambda>c. [c]) sample_reply, Eof), 1)" for x y z
    by (simp add: sample_network_def)
  note relay = proxy_relays [of "sample_get ''/ucla/a''" "''ucla''" "''/a''" sample_proxy "''www.ucla.edu''" 80
      sample_network 0 "map (\<lambda>c. [c]) sample_reply" 1, OF u _ _ _ h(1,2,3) net sample_line sample_reply_parts(1) _
      trans [OF concat_single sample_reply_parts(2)]]
  have "\<exists>resp. proxy_handle_request sample_network sample_proxy (sample_get ''/ucla/a'') 0 = (Inr resp, 1) \<and>
      get_status_code resp = 200 \<and> (Response.get_body resp, Response.get_header resp ''Content-Type'') =
        (''<p>'' @ CRLF @ CRLF, ''text/html'')"
    using relay by (simp add: sample_reply_parts(3) h(4))
  then show ?thesis by auto
qed

text \<open>
  A request whose first segment is not a location of the configuration is undefined behaviour:
  the iterator of a failed search is followed. The router passes such requests on, since it matches
  prefixes of the whole URI and not segments.
\<close>

theorem proxy_unknown_segment:
  assumes "get_uri req = CHR ''/'' # seg @ rest" "CHR ''/'' \<notin> set seg" "rest = [] \<or> hd rest = CHR ''/''" "seg @ rest \<noteq> []"
    and "um_find (location2proxy h) (CHR ''/'' # seg) = None"
  shows "proxy_handle_request net h req w = (Inl Undefined, w)"
  unfolding proxy_handle_request_def assms(1) construct_get_request [OF assms(2-4) refl] assms(5) by simp

theorem proxy_unknown_segment_witness:
  "proxy_handle_request sample_network sample_proxy (sample_get ''/uclax/a'') 0 = (Inl Undefined, 0)"
  by (rule proxy_unknown_segment [of _ "''uclax''" "''/a''"]) (simp_all add: sample_proxy_def um_defs)

lemma proxy_no_port:
  "port_num h = None \<Longrightarrow> um_find (location2proxy h) (CHR ''/'' # seg) = Some host \<Longrightarrow>
   get_uri req = CHR ''/'' # seg @ rest \<Longrightarrow> CHR ''/'' \<notin> set seg \<Longrightarrow> rest = [] \<or> hd rest = CHR ''/'' \<Longrightarrow> seg @ rest \<noteq> [] \<Longrightarrow>
   proxy_handle_request net h req w = (Inl Undefined, w)"
  by (simp add: proxy_handle_request_def construct_get_request sendGetRequest_def)

text \<open>Without a semicolon the carriage return of the line stays in the content type.\<close>

lemma header_mime_value:
  "CHR '';'' \<notin> set t \<Longrightarrow> header_mime (''Content-Type: '' @ t @ CHR '';'' # x) m = t"
  "CHR '';'' \<notin> set t \<Longrightarrow> header_mime (''Content-Type: '' @ t @ [CR]) m = t @ [CR]"
  by (auto simp: header_mime_def takeWhile_eq_all_conv intro: takeWhile_append_stop)

subsection \<open>Construction\<close>

text \<open>Each root with the location in force.\<close>

fun proxy_pairs :: "string \<Rightarrow> config \<Rightarrow> (string \<times> string) list" where
  "proxy_pairs loc [] = []"
| "proxy_pairs loc (st # sts) =
     (if tokens st ! 0 = ''location'' then proxy_pairs (tokens st ! 1) sts
      else if tokens st ! 0 = ''root'' then (loc, tokens st ! 1) # proxy_pairs loc sts
      else proxy_pairs loc sts)"

definition proxy_ports :: "config \<Rightarrow> int result list" where
  "proxy_ports sts = map (\<lambda>st. atoi (c_string (tokens st ! 1))) (filter (\<lambda>st. tokens st ! 0 = ''port'') sts)"

definition proxy_config_ok :: "config \<Rightarrow> bool" where
  "proxy_config_ok sts \<longleftrightarrow> (\<forall>st\<in>set sts. tokens st \<noteq> [] \<and>
     (tokens st ! 0 \<in> {''location'', ''root'', ''port''} \<longrightarrow> 1 < length (tokens st))) \<and> (\<forall>p\<in>set (proxy_ports sts). returns p)"

lemma atoi_fault: "atoi s = Inl e \<Longrightarrow> e = Undefined"
  by (auto simp: atoi_def Let_def split: prod.splits if_splits)

definition proxy_built :: "string \<Rightarrow> config \<Rightarrow> proxy \<Rightarrow> proxy" where
  "proxy_built loc sts h = h\<lparr>location2proxy := foldl (\<lambda>m (k, v). um_insert m k v) (location2proxy h) (proxy_pairs loc sts),
     port_num := (if proxy_ports sts = [] then port_num h else Some (projr (last (proxy_ports sts))))\<rparr>"

lemma proxy_ports_Cons:
  "proxy_ports (st # sts) =
     (if tokens st ! 0 = ''port'' then atoi (c_string (tokens st ! 1)) # proxy_ports sts else proxy_ports sts)"
  by (simp add: proxy_ports_def)

lemma proxy_config_ok_Cons:
  "proxy_config_ok (st # sts) \<longleftrightarrow> tokens st \<noteq> [] \<and>
     (tokens st ! 0 \<in> {''location'', ''root'', ''port''} \<longrightarrow> 1 < length (tokens st)) \<and>
     (tokens st ! 0 = ''port'' \<longrightarrow> returns (atoi (c_string (tokens st ! 1)))) \<and> proxy_config_ok sts"
  unfolding proxy_config_ok_def proxy_ports_Cons by auto

lemma proxy_built_Cons:
  "tokens st ! 0 = ''location'' \<Longrightarrow> proxy_built loc (st # sts) h = proxy_built (tokens st ! 1) sts h"
  "tokens st ! 0 = ''root'' \<Longrightarrow> proxy_built loc (st # sts) h =
     proxy_built loc sts (h\<lparr>location2proxy := um_insert (location2proxy h) loc (tokens st ! 1)\<rparr>)"
  "tokens st ! 0 = ''port'' \<Longrightarrow> atoi (c_string (tokens st ! 1)) = Inr p \<Longrightarrow>
     proxy_built loc (st # sts) h = proxy_built loc sts (h\<lparr>port_num := Some p\<rparr>)"
  "tokens st ! 0 \<notin> {''location'', ''root'', ''port''} \<Longrightarrow> proxy_built loc (st # sts) h = proxy_built loc sts h"
  by (simp_all add: proxy_built_def proxy_ports_Cons)

lemma proxy_statements_eq:
  "proxy_statements sts loc h = (if proxy_config_ok sts then Inr (proxy_built loc sts h) else Inl Undefined)"
proof (induction sts arbitrary: loc h)
  case Nil
  then show ?case by (simp add: proxy_config_ok_def proxy_ports_def proxy_built_def)
next
  case (Cons st sts)
  consider (none) "tokens st = []"
    | (short) t0 where "tokens st = [t0]"
    | (location) t1 ts where "tokens st = ''location'' # t1 # ts"
    | (root) t1 ts where "tokens st = ''root'' # t1 # ts"
    | (port) t1 ts where "tokens st = ''port'' # t1 # ts"
    | (other) t0 t1 ts where "tokens st = t0 # t1 # ts" "t0 \<notin> {''location'', ''root'', ''port''}"
    by (metis remdups_adj.cases empty_iff insert_iff)
  then show ?case
  proof cases
    case short
    then show ?thesis by (cases "t0 \<in> {''location'', ''root'', ''port''}")
      (auto simp: Cons.IH proxy_config_ok_Cons proxy_built_Cons(4))
  next
    case port
    then show ?thesis
      by (cases "atoi (c_string t1)") (simp_all add: Cons.IH proxy_config_ok_Cons proxy_built_Cons(3) atoi_fault)
  qed (simp_all add: Cons.IH proxy_config_ok_Cons proxy_built_Cons)
qed

text \<open>
  Constructing the handler is defined exactly when every statement has a token, every location,
  root and port has a value, and the ports are in the range of an int; then the host of a location
  is the first root given for it, and the port is the last one given, or is never set.
\<close>

theorem proxy_configured:
  "(case new_reverse_proxy_handler (Some sts) root_path of
      Inl e \<Rightarrow> e = Undefined \<and> \<not> proxy_config_ok sts
    | Inr h \<Rightarrow> proxy_config_ok sts \<and> um_find (location2proxy h) l = map_of (proxy_pairs '''' sts) l \<and>
        \<not> redirect h \<and> (case port_num h of
            None \<Rightarrow> proxy_ports sts = []
          | Some p \<Rightarrow> proxy_ports sts \<noteq> [] \<and> last (proxy_ports sts) = Inr p))"
proof (cases "proxy_config_ok sts")
  case True
  have "last (proxy_ports sts) = Inr (projr (last (proxy_ports sts)))" if "proxy_ports sts \<noteq> []"
    using True last_in_set [OF that] by (auto simp: proxy_config_ok_def returns_iff)
  with True show ?thesis
    by (simp add: new_reverse_proxy_handler_def proxy_statements_eq proxy_built_def um.find_insert_all um_simps)
qed (simp add: new_reverse_proxy_handler_def proxy_statements_eq)

subsection \<open>The contract of a handler\<close>

lemma proxy_response_good: "response_ok (proxy_response req s h)" "get_status_code (proxy_response req s h) = 200"
  by (simp_all add: proxy_response_def Let_def handler_simps)

interpretation proxy_h: route_handler "\<lambda>(net, h, w) req. fst (proxy_handle_request net h req w)"
proof
  fix s :: "'a network \<times> proxy \<times> 'a" and req resp
  assume "(case s of (net, h, w) \<Rightarrow> \<lambda>req. fst (proxy_handle_request net h req w)) req = Inr resp"
  then have "\<exists>str h'. resp = proxy_response req str h'"
    by (auto simp: proxy_handle_request_def io_bind_def split: prod.splits sum.splits)
  then show "response_ok resp" "get_status_word (get_status_code resp) \<noteq> ''''"
    using proxy_response_good by fastforce+
qed

subsection \<open>Redirections\<close>

lemma find_str_skip:
  "(\<And>x y. pre = x @ y \<Longrightarrow> y \<noteq> [] \<Longrightarrow> \<not> prefix pat (y @ pat @ t)) \<Longrightarrow> pat \<noteq> [] \<Longrightarrow>
     find_str pat (pre @ pat @ t) = Some (length pre)"
proof (induction pre)
  case Nil
  then obtain c s where s: "pat @ t = c # s" by (cases "pat @ t") auto
  have "prefix pat (c # s)" using s by (metis prefixI)
  then show ?case by (simp add: s)
next
  case (Cons c pre)
  have "\<not> prefix pat ((c # pre) @ pat @ t)" using Cons.prems(1) [of "[]"] by simp
  moreover have "find_str pat (pre @ pat @ t) = Some (length pre)"
    by (rule Cons.IH) (use Cons.prems in \<open>auto simp: Cons_eq_append_conv\<close>)
  ultimately show ?case by simp
qed

text \<open>The host of a redirection is what follows the first \<open>http://\<close>, up to a slash or a quotation mark.\<close>

lemma extractRedirectedHost_host:
  assumes "CHR ''h'' \<notin> set pre" "\<forall>c\<in>set host. c \<noteq> CHR ''/'' \<and> c \<noteq> DQUOTE \<and> c \<noteq> NUL" "d = CHR ''/'' \<or> d = DQUOTE"
  shows "extractRedirectedHost (pre @ ''http://'' @ host @ d # t) = Inr host"
proof -
  have "find_str ''http://'' (pre @ ''http://'' @ host @ d # t) = Some (length pre)"
    by (rule find_str_skip) (use assms(1) in \<open>auto simp: neq_Nil_conv\<close>)
  moreover have "takeWhile (\<lambda>c. c \<noteq> CHR ''/'' \<and> c \<noteq> DQUOTE) (host @ d # t) = host"
    using assms(2,3) by (intro takeWhile_append_stop) auto
  moreover have "c_string host = host" using assms(2) by (auto simp: c_string_def takeWhile_eq_all_conv)
  ultimately show ?thesis by (simp add: extractRedirectedHost_def)
qed

end
