(* ===== verification/Meme_Props.thy ===== *)
theory Meme_Props
  imports Meme_Handler
begin

text \<open>
  The properties of the meme handler: accepted identifiers, the characters of a stored meme, the
  document of a meme, when the table changes, and the order of the lists.
\<close>

lemma status_words_meme [simp]:
  "get_status_word 201 = ''Created''" "get_status_word 303 = ''See Other''"
  by (simp_all add: get_status_word_def um_find_def response_codes_def)

lemmas meme_response_defs = text_response_def id_response_def redirect_to_def redirect_request_def
  json_response_def meme_invalid_method_def

lemma io_bind_Inr: "fst (io_bind m f db) = Inr y \<Longrightarrow> \<exists>x db'. fst (f x db') = Inr y"
  by (auto simp: io_bind_def split: prod.splits sum.splits)

definition good_response :: "response \<Rightarrow> bool" where
  "good_response r \<longleftrightarrow> response_ok r \<and> get_status_word (get_status_code r) \<noteq> ''''"

lemma good_simple:
  "good_response (text_response 400 b)" "good_response (text_response 404 b)" "good_response (text_response 405 b)"
  "good_response (text_response 500 b)" "good_response (id_response 200 i)" "good_response (id_response 201 i)"
  "good_response (json_response b)" "good_response (redirect_request l)" "good_response (meme_invalid_method req)"
  "good_response (set_header n v (new_response 400 b))"
  by (simp_all add: good_response_def meme_response_defs handler_simps)

definition good_io :: "('db, response) io \<Rightarrow> bool" where
  "good_io m \<longleftrightarrow> (\<forall>db r. fst (m db) = Inr r \<longrightarrow> good_response r)"

lemma good_ioI:
  "good_response r \<Longrightarrow> good_io (io_return r)"
  "(\<And>x. good_io (f x)) \<Longrightarrow> good_io (io_bind m f)"
  "good_io (io_lift (Inl e))"
  "(\<And>r. res = Inr r \<Longrightarrow> good_response r) \<Longrightarrow> good_io (io_lift res)"
  by (auto simp: good_io_def dest: io_bind_Inr)

lemma good_if: "good_io a \<Longrightarrow> good_io b \<Longrightarrow> good_io (if c then a else b)"
  by simp

lemma good_list_response: "list_response rows = Inr r \<Longrightarrow> good_response r"
  by (auto simp: list_response_def bind_res_eq_Inr good_simple)

lemma good_operations:
  "good_io (create_meme sq gen req)" "good_io (update_meme sq i req)" "good_io (delete_meme sq i req)"
  "good_io (meme_list sq)" "good_io (meme_search sq q)" "good_io (get_meme_by_id sq i)"
  by (auto simp: create_meme_def update_meme_def delete_meme_def meme_list_def meme_search_def get_meme_by_id_def view_read_def view_write_def [abs_def]
      Let_def good_simple good_list_response intro!: good_ioI split: option.split)

lemma good_meme_handle: "good_io (meme_handle_request sq gen req)"
  unfolding meme_handle_request_def Let_def
  by (intro good_if good_operations good_ioI(1) good_simple)

text \<open>The meme handler keeps the contract of a handler; its redirects have no content type.\<close>

interpretation meme_h: route_handler "\<lambda>(sq, gen, db) req. fst (meme_handle_request sq gen req db)"
proof
  fix s :: "'a sqlite \<times> ('a, string) io \<times> 'a" and req resp
  assume "(case s of (sq, gen, db) \<Rightarrow> \<lambda>req. fst (meme_handle_request sq gen req db)) req = Inr resp"
  then have "fst (meme_handle_request (fst s) (fst (snd s)) req (snd (snd s))) = Inr resp"
    by (simp add: case_prod_unfold)
  then have "good_response resp"
    using good_meme_handle [of "fst s" "fst (snd s)" req] unfolding good_io_def by blast
  then show "response_ok resp" "get_status_word (get_status_code resp) \<noteq> ''''" by (simp_all add: good_response_def)
qed

text \<open>
  Whatever SQLite returns, a response of the meme handler is written with a complete status
  line, reason phrase included.
\<close>

theorem meme_status_line:
  assumes "fst (meme_handle_request sq gen req db) = Inr resp"
  shows "\<exists>w t. w \<noteq> '''' \<and> snd (generate_response resp) =
    ''HTTP/1.1 '' @ to_dec (unat (get_status_code resp)) @ '' '' @ w @ CRLF @ t"
  using meme_h.written_status_line [of "(sq, gen, db)"] assms by simp

subsection \<open>Identifiers\<close>

lemma rx_rel_times:
  "rx_rel (RSeq (RTimes n p) r) b w rest caps \<longleftrightarrow>
     (\<exists>w1 w2. w = w1 @ w2 \<and> length w1 = n \<and> list_all p w1 \<and> rx_rel r (b \<and> w1 = []) w2 rest caps)"
  by (auto simp: rx_rel_simps list_all_iff)

lemma times_then:
  "length p = n \<Longrightarrow> list_all P p \<Longrightarrow> rx_rel r (b \<and> p = []) w rest caps \<Longrightarrow> rx_rel (RSeq (RTimes n P) r) b (p @ w) rest caps"
  unfolding rx_rel_times by blast

lemma times_eol: "length p = n \<Longrightarrow> list_all P p \<Longrightarrow> rx_rel (RSeq (RTimes n P) REol) b p [] []"
  unfolding rx_rel_times rx_rel_simps(8) by blast

lemma lit_then: "rx_rel r False w rest caps \<Longrightarrow> rx_rel (RSeq (RLit [c]) r) b (c # w) rest caps"
  by (simp add: rx_rel_seq(1))

definition uuid_text :: "string list \<Rightarrow> string" where
  "uuid_text parts = sep_list ''-'' '''' parts"

definition uuid_parts :: "string list \<Rightarrow> bool" where
  "uuid_parts parts \<longleftrightarrow> map length parts = [8, 4, 4, 4, 12] \<and> list_all (list_all is_xdigit) parts"

lemma uuid_rel:
  "rx_rel uuid_rx True w rest caps \<longleftrightarrow> rest = [] \<and> caps = [] \<and> (\<exists>ps. uuid_parts ps \<and> w = uuid_text ps)"
proof
  assume "rx_rel uuid_rx True w rest caps"
  then obtain p1 p2 p3 p4 p5 where "uuid_parts [p1, p2, p3, p4, p5]" "w = uuid_text [p1, p2, p3, p4, p5]"
    "rest = []" "caps = []"
    unfolding uuid_rx_def rx_seq.simps rx_rel_seq(1,3) rx_rel_times rx_rel_simps(8) uuid_parts_def uuid_text_def
    by auto
  then show "rest = [] \<and> caps = [] \<and> (\<exists>ps. uuid_parts ps \<and> w = uuid_text ps)" by blast
next
  assume "rest = [] \<and> caps = [] \<and> (\<exists>ps. uuid_parts ps \<and> w = uuid_text ps)"
  then obtain ps where ps: "uuid_parts ps" "w = uuid_text ps" "rest = []" "caps = []" by blast
  then obtain p1 p2 p3 p4 p5 where "ps = [p1, p2, p3, p4, p5]"
    by (auto simp: uuid_parts_def map_eq_Cons_conv)
  with ps have w: "w = p1 @ CHR ''-'' # p2 @ CHR ''-'' # p3 @ CHR ''-'' # p4 @ CHR ''-'' # p5"
    and l: "length p1 = 8" "length p2 = 4" "length p3 = 4" "length p4 = 4" "length p5 = 12"
      "list_all is_xdigit p1" "list_all is_xdigit p2" "list_all is_xdigit p3" "list_all is_xdigit p4"
      "list_all is_xdigit p5"
    by (simp_all add: uuid_parts_def uuid_text_def)
  have "rx_rel uuid_rx True w [] []"
    unfolding uuid_rx_def rx_seq.simps rx_rel_seq(3) w
    by (rule conjI TrueI times_eol times_then lit_then l)+
  with ps show "rx_rel uuid_rx True w rest caps" by simp
qed

lemma check_id_iff: "check_id i \<longleftrightarrow> (\<exists>ps. uuid_parts ps \<and> i = uuid_text ps)"
proof -
  have "check_id i \<longleftrightarrow> rx_all uuid_rx True i \<noteq> []"
  proof (cases "rx_all uuid_rx True i")
    case Nil
    then have "regex_search uuid_rx i = None"
      unfolding uuid_rx_def rx_seq.simps by (rule regex_search_Bol_None)
    then show ?thesis using Nil by (simp add: check_id_def)
  next
    case (Cons m ms)
    then show ?thesis by (simp add: check_id_def regex_search_def rx_search_at)
  qed
  also have "\<dots> \<longleftrightarrow> (\<exists>ps. uuid_parts ps \<and> i = uuid_text ps)"
    unfolding rx_all_Nil_iff uuid_rel by auto
  finally show ?thesis .
qed

text \<open>
  An identifier is accepted exactly when it has the form of a UUID: five groups of 8, 4, 4, 4
  and 12 hexadecimal digits, of either case, joined by hyphens, and nothing else.
\<close>

theorem check_id_exact: "check_id i \<longleftrightarrow> (\<exists>ps. uuid_parts ps \<and> i = uuid_text ps)"
  by (rule check_id_iff)

subsection \<open>The body of a request\<close>

definition caption_text :: "string \<Rightarrow> bool" where
  "caption_text w \<longleftrightarrow> w \<noteq> [] \<and> list_all caption_char w"

lemma meme_param_caps:
  assumes "caps \<in> set (regex_iterate meme_param_rx b s)"
  shows "list_all caption_char (caps ! 1)"
proof -
  obtain pre w rest b' where "rx_rel meme_param_rx b' w rest caps"
    using regex_iterate_rel [OF assms] by blast
  then obtain k v c3 where "caps = k # v # c3" "\<forall>c\<in>set v. caption_char c"
    unfolding meme_param_rx_def rx_seq.simps rx_rel_seq by auto
  then show ?thesis by (simp add: list_all_iff)
qed

lemma body_param_inv:
  "list_all (\<lambda>caps. list_all caption_char (caps ! 1)) cs \<Longrightarrow> foldl body_param p cs = (t, a, c) \<Longrightarrow>
   (case p of (t', a', c') \<Rightarrow> list_all (list_all caption_char) [t', a', c']) \<Longrightarrow>
   list_all (list_all caption_char) [t, a, c]"
proof (induction cs arbitrary: p)
  case (Cons x cs)
  obtain t' a' c' where p: "p = (t', a', c')" by (cases p)
  show ?case
    by (rule Cons.IH [of "body_param p x"]) (use Cons.prems p in \<open>auto simp: body_param_def\<close>)
qed auto

lemma search_empty:
  "regex_search caption_rx [] = None" "regex_search template_rx [] = None"
  by code_simp+

lemma body_check_clean:
  assumes "body_check body = Inr (Some ps)"
  shows "\<exists>t a c. ps = [t, a, c] \<and> caption_text t \<and> caption_text a \<and> caption_text c"
proof -
  obtain b where b: "UriDecode body = Inr b" using assms by (auto simp: body_check_def bind_res_eq_Inr)
  obtain t a c where f: "foldl body_param ('''', '''', '''') (regex_iterate meme_param_rx True b) = (t, a, c)"
    by (cases "foldl body_param ('''', '''', '''') (regex_iterate meme_param_rx True b)") auto
  have "list_all (list_all caption_char) [t, a, c]"
    by (rule body_param_inv [OF _ f]) (use meme_param_caps in \<open>auto simp: list_all_iff\<close>)
  moreover have "ps = [t, a, c]" "t \<noteq> []" "a \<noteq> []" "c \<noteq> []"
    using assms search_empty by (auto simp: body_check_def b f split: if_splits)
  ultimately show ?thesis by (simp add: caption_text_def)
qed

text \<open>The texts between quotation marks, in order: what a reader of the document takes its strings to be.\<close>

fun split_quotes :: "string \<Rightarrow> string list" where
  "split_quotes [] = [[]]"
| "split_quotes (c # cs) =
     (if c = DQUOTE then [] # split_quotes cs
      else (case split_quotes cs of [] \<Rightarrow> [[c]] | p # ps \<Rightarrow> (c # p) # ps))"

fun odd_parts :: "string list \<Rightarrow> string list" where
  "odd_parts (a # b # xs) = b # odd_parts xs"
| "odd_parts xs = []"

definition json_strings :: "string \<Rightarrow> string list" where
  "json_strings s = odd_parts (split_quotes s)"

lemma split_quotes_append: "DQUOTE \<notin> set w \<Longrightarrow> split_quotes (w @ DQUOTE # s) = w # split_quotes s"
  by (induction w) auto

lemma caption_no_quote: "list_all caption_char w \<Longrightarrow> DQUOTE \<notin> set w"
proof -
  assume "list_all caption_char w"
  moreover have "\<not> caption_char DQUOTE" by code_simp
  ultimately show ?thesis by (auto simp: list_all_iff)
qed

lemma meme_json_strings:
  assumes "DQUOTE \<notin> set t" "DQUOTE \<notin> set a" "DQUOTE \<notin> set c"
  shows "json_strings (meme_json t a c) = [''memeSelect'', t, ''topCaption'', a, ''bottomCaption'', c]"
  using split_quotes_append [OF assms(1)] split_quotes_append [OF assms(2)] split_quotes_append [OF assms(3)]
  by (simp add: json_strings_def meme_json_def)

text \<open>
  The three texts that a valid body gives are not empty and have only word characters, dots,
  commas, question and exclamation marks and blanks; so the document that is later made of them
  reads back exactly, no text can close a string of it.
\<close>

theorem meme_document_roundtrip:
  assumes "body_check body = Inr (Some ps)"
  shows "length ps = 3 \<and> list_all caption_text ps \<and>
    json_strings (meme_json (ps ! 0) (ps ! 1) (ps ! 2)) =
      [''memeSelect'', ps ! 0, ''topCaption'', ps ! 1, ''bottomCaption'', ps ! 2]"
proof -
  obtain t a c where ps: "ps = [t, a, c]" and clean: "caption_text t" "caption_text a" "caption_text c"
    using body_check_clean [OF assms] by blast
  then have "json_strings (meme_json t a c) = [''memeSelect'', t, ''topCaption'', a, ''bottomCaption'', c]"
    by (intro meme_json_strings caption_no_quote) (simp_all add: caption_text_def)
  then show ?thesis using clean by (simp add: ps numeral_2_eq_2)
qed

definition sample_body :: string where
  "sample_body = ''memeSelect=a.jpg&topCaption=Hi%20there&bottomCaption=you%3F''"

lemma sample_body_checked: "body_check sample_body = Inr (Some [''a.jpg'', ''Hi there'', ''you?''])"
  by code_simp

theorem meme_document_roundtrip_witness:
  "json_strings (meme_json ''a.jpg'' ''Hi there'' ''you?'') =
     [''memeSelect'', ''a.jpg'', ''topCaption'', ''Hi there'', ''bottomCaption'', ''you?'']"
  using meme_document_roundtrip [OF sample_body_checked] by (simp add: numeral_2_eq_2)

subsection \<open>When the table changes\<close>

lemma create_meme_state:
  "snd (create_meme sq gen req db) \<noteq> db \<Longrightarrow> \<exists>ps. body_check (Request.get_body req) = Inr (Some ps)"
  by (cases "body_check (Request.get_body req)")
    (auto simp: create_meme_def io_bind_def io_lift_def io_return_def split: option.splits)

lemma update_meme_state:
  "snd (update_meme sq i req db) \<noteq> db \<Longrightarrow> check_id i \<and> (\<exists>ps. body_check (Request.get_body req) = Inr (Some ps))"
  by (cases "body_check (Request.get_body req)")
    (auto simp: update_meme_def io_bind_def io_lift_def io_return_def split: if_splits)

lemma delete_meme_state: "snd (delete_meme sq i req db) \<noteq> db \<Longrightarrow> check_id i"
  by (auto simp: delete_meme_def io_return_def split: if_splits)

text \<open>
  C32: whatever SQLite does, a request other than GET touches the database only when it is a POST
  with a valid body, a PUT with a valid identifier and a valid body, or a DELETE with a valid
  identifier; every other such request leaves it as it was.
\<close>

theorem meme_writes_guarded:
  assumes "get_method req \<noteq> ''GET''" "snd (meme_handle_request sq gen req db) \<noteq> db"
  shows "(get_method req = ''POST'' \<and> (\<exists>ps. body_check (Request.get_body req) = Inr (Some ps))) \<or>
    (get_method req = ''PUT'' \<and> check_id (check_uri (get_uri req)) \<and>
       (\<exists>ps. body_check (Request.get_body req) = Inr (Some ps))) \<or>
    (get_method req = ''DELETE'' \<and> check_id (check_uri (get_uri req)))"
  using assms
  by (auto simp: meme_handle_request_def Let_def io_return_def split: if_splits
      dest: create_meme_state update_meme_state delete_meme_state)

definition counting_sqlite :: "nat sqlite" where
  "counting_sqlite = \<lparr>sqlite_open = (\<lambda>_ n. (0, n)), sqlite_close = (\<lambda>n. (0, n)), sqlite_exec = (\<lambda>_ n. (0, n)),
     sqlite_query = (\<lambda>_ _ n. (([], SQLITE_DONE), Suc n))\<rparr>"

definition sample_delete :: request where
  "sample_delete = (new_request [] [])\<lparr>http_method := ''DELETE'',
     uri := ''/memes/01234567-89ab-cdef-0123-456789abcdef''\<rparr>"

theorem meme_writes_guarded_witness: "check_id (check_uri (get_uri sample_delete))"
proof -
  have m: "get_method sample_delete = ''DELETE''" by (simp add: sample_delete_def get_method_def)
  have "snd (meme_handle_request counting_sqlite (io_return ''u'') sample_delete 0) = 1" by code_simp
  then have "snd (meme_handle_request counting_sqlite (io_return ''u'') sample_delete 0) \<noteq> 0" by simp
  from meme_writes_guarded [OF _ this] m show ?thesis by simp
qed

subsection \<open>The order of the lists\<close>

lemma sort_memes_sorted:
  assumes "sort_memes rows = Inr s"
  shows "mset s = mset rows \<and> sorted (map compare_key s) \<and>
    (\<forall>k. filter (\<lambda>r. compare_key r = k) s = filter (\<lambda>r. compare_key r = k) rows)"
proof (cases "length rows < 2")
  case True
  with assms have "s = rows" by (simp add: sort_memes_def)
  then show ?thesis using True by (cases rows) (auto simp: less_Suc_eq)
next
  case False
  with assms have "s = sort_key compare_key rows"
    by (auto simp: sort_memes_def split: option.splits)
  then show ?thesis by (simp add: sort_key_stable)
qed

text \<open>
  The list of memes has one entry per row that SQLite returns, the most viewed first; rows with
  equally many views come in the opposite of the order in which they were returned.
\<close>

theorem meme_list_order:
  assumes "select_record sq table_name [] db = (Inr rows, db')" "fst (meme_list sq db) = Inr resp"
  shows "\<exists>s. mset s = mset rows \<and> sorted_wrt (\<lambda>a b. compare_key b \<le> compare_key a) s \<and>
    (\<forall>k. filter (\<lambda>r. compare_key r = k) s = rev (filter (\<lambda>r. compare_key r = k) rows)) \<and>
    Response.get_body resp = ''['' @ sep_list '','' '''' (map meme_entry s) @ '']''"
proof -
  have "list_response rows = Inr resp" using assms by (simp add: meme_list_def)
  then obtain s where s: "sort_memes rows = Inr s" and b: "memes_json s = Inr (Response.get_body resp)"
    by (auto simp: list_response_def bind_res_eq_Inr json_response_def handler_simps)
  note so = sort_memes_sorted [OF s]
  have "sorted_wrt (\<lambda>a b. compare_key b \<le> compare_key a) (rev s)"
    using so by (simp add: sorted_wrt_rev sorted_map)
  moreover have "Response.get_body resp = ''['' @ sep_list '','' '''' (map meme_entry (rev s)) @ '']''"
    using b by (auto simp: memes_json_def split: if_splits)
  moreover have "filter (\<lambda>r. compare_key r = k) (rev s) = rev (filter (\<lambda>r. compare_key r = k) rows)" for k
    using so by (simp add: rev_filter [symmetric])
  ultimately show ?thesis using so by (intro exI [of _ "rev s"]) simp
qed

definition listing_sqlite :: "unit sqlite" where
  "listing_sqlite = \<lparr>sqlite_open = (\<lambda>_ n. (0, n)), sqlite_close = (\<lambda>n. (0, n)), sqlite_exec = (\<lambda>_ n. (0, n)),
     sqlite_query = (\<lambda>_ _ n. (([map Some [''a'', ''p'', ''t'', ''b'', ''2''], map Some [''c'', ''p'', ''t'', ''b'', ''10'']],
       SQLITE_DONE), n))\<rparr>"

theorem meme_list_order_witness:
  "\<exists>s. mset s = mset [[''a'', ''p'', ''t'', ''b'', ''2''], [''c'', ''p'', ''t'', ''b'', ''10'']] \<and>
     sorted_wrt (\<lambda>a b. compare_key b \<le> compare_key a) s"
proof -
  have q: "select_record listing_sqlite table_name [] () =
      (Inr [[''a'', ''p'', ''t'', ''b'', ''2''], [''c'', ''p'', ''t'', ''b'', ''10'']], ())"
    by (simp add: select_record_def fetch_rows_def listing_sqlite_def)
  have "returns (fst (meme_list listing_sqlite ()))" by code_simp
  then obtain resp where "fst (meme_list listing_sqlite ()) = Inr resp" by (auto simp: returns_iff)
  from meme_list_order [OF q this] show ?thesis by blast
qed

theorem meme_status_line_witness:
  "\<exists>w. w \<noteq> '''' \<and> (\<exists>resp t. snd (generate_response resp) =
     ''HTTP/1.1 '' @ to_dec (unat (get_status_code resp)) @ '' '' @ w @ CRLF @ t)"
proof -
  have "returns (fst (meme_handle_request counting_sqlite (io_return ''u'') sample_delete 0))" by code_simp
  then obtain resp where "fst (meme_handle_request counting_sqlite (io_return ''u'') sample_delete 0) = Inr resp"
    by (auto simp: returns_iff)
  from meme_status_line [OF this] show ?thesis by blast
qed

end
