(* ===== verification/Router_Props.thy ===== *)
theory Router_Props
  imports Router Proxy_Props Meme_Props
begin

text \<open>
  The properties of the router: the choice of the route, what the configuration registers, that a
  handler can always be selected, and the response to a request.
\<close>

subsection \<open>The route of a URI\<close>

text \<open>
  C7: \<open>longest_prefix_match\<close> returns a prefix of the URI that is registered (or is empty), and no
  registered prefix of the URI is longer.
\<close>

theorem longest_prefix_correct:
  "prefix (longest_prefix_match r u) u \<and>
   (longest_prefix_match r u = '''' \<or> longest_prefix_match r u \<in> fst ` set (route_map r)) \<and>
   (\<forall>(p, h)\<in>set (route_map r). prefix p u \<longrightarrow> length p \<le> length (longest_prefix_match r u))"
  using lpm_longest [of u r] by (force simp: longest_of_def)

definition sample_routes :: router where
  "sample_routes = fst (foldl (\<lambda>s (u, h). register_route u h s) (new_router [] '''', new_recorder)
     [(''/'', ''default''), (''/echo'', ''echo''), (''/ec'', ''status'')])"

theorem longest_prefix_correct_witness:
  "length ''/echo'' \<le> length (longest_prefix_match sample_routes ''/echo/x'')"
proof -
  have "(''/echo'', ''echo'') \<in> set (route_map sample_routes)" by code_simp
  moreover have "prefix ''/echo'' ''/echo/x''" by simp
  ultimately show ?thesis using longest_prefix_correct [of sample_routes "''/echo/x''"] by fast
qed

text \<open>
  The route chosen for a URI and the handler registered for it do not depend on the order in
  which the table happens to be visited.
\<close>

theorem route_order_independent:
  assumes "mset (route_map r) = mset (route_map r')" "um_ok (route_map r)" "config_of r = config_of r'"
  shows "longest_prefix_match r u = longest_prefix_match r' u \<and> get_route_handler r u = get_route_handler r' u"
proof
  have "fst ` set (route_map r) = fst ` set (route_map r')" using assms(1) mset_eq_setD by metis
  then show "longest_prefix_match r u = longest_prefix_match r' u"
    using lpm_longest longest_of_unique by metis
  show "get_route_handler r u = get_route_handler r' u"
    using um_find_mset [OF assms(2,1), of u] assms(3)
    by (cases "um_find (route_map r') u") (simp_all add: get_route_handler_def get_handler_config_def)
qed

theorem route_order_independent_witness:
  "longest_prefix_match sample_routes ''/echo/x'' =
     longest_prefix_match (sample_routes\<lparr>route_map := rev (route_map sample_routes)\<rparr>) ''/echo/x''"
proof -
  have "um_ok (route_map sample_routes)" by code_simp
  then show ?thesis
    using route_order_independent [of sample_routes "sample_routes\<lparr>route_map := rev (route_map sample_routes)\<rparr>"]
    by simp
qed

subsection \<open>Registration\<close>

definition is_location :: "config_statement \<Rightarrow> bool" where
  "is_location st \<longleftrightarrow> tokens st \<noteq> [] \<and> tokens st ! 0 = ''location''"

definition locations :: "config \<Rightarrow> string list" where
  "locations b = map (\<lambda>st. tokens st ! 1) (filter is_location b)"

definition locations_ok :: "config \<Rightarrow> bool" where
  "locations_ok b \<longleftrightarrow> (\<forall>st\<in>set b. is_location st \<longrightarrow> 1 < length (tokens st))"

text \<open>The blocks \<open>handler <name> { ... }\<close> of a router configuration.\<close>

definition handler_blocks :: "config \<Rightarrow> (string \<times> config) list" where
  "handler_blocks conf = map (\<lambda>st. (tokens st ! 1, the (child_block st)))
     (filter (\<lambda>st. 1 < length (tokens st) \<and> tokens st ! 0 = ''handler'' \<and> child_block st \<noteq> None) conf)"

definition config_routes :: "config \<Rightarrow> (string \<times> string) list" where
  "config_routes conf = concat (map (\<lambda>(k, b). map (\<lambda>u. (u, k)) (locations b)) (handler_blocks conf))"

definition routes_ok :: "config \<Rightarrow> bool" where
  "routes_ok conf \<longleftrightarrow> (\<forall>(k, b)\<in>set (handler_blocks conf). locations_ok b)"

definition register_all :: "(string \<times> string) list \<Rightarrow> registry \<Rightarrow> registry" where
  "register_all rs s = foldl (\<lambda>s (u, h). register_route u h s) s rs"

lemma register_all_append: "register_all (xs @ ys) s = register_all ys (register_all xs s)"
  by (simp add: register_all_def)

lemma register_locations_eq:
  "register_locations k b s =
     (if locations_ok b then Inr (register_all (map (\<lambda>u. (u, k)) (locations b)) s) else Inl Undefined)"
proof (induction b arbitrary: s)
  case Nil
  then show ?case by (simp add: locations_ok_def locations_def register_all_def)
next
  case (Cons st b)
  consider "\<not> is_location st" | t0 where "tokens st = [t0]" "is_location st"
    | t0 t1 ts where "tokens st = t0 # t1 # ts" "is_location st"
    by (metis is_location_def remdups_adj.cases)
  then show ?case
    by cases (auto simp: Cons.IH locations_ok_def locations_def register_all_def is_location_def)
qed

lemma register_statements_eq:
  "register_statements conf s =
     (if routes_ok conf then Inr (register_all (config_routes conf) s) else Inl Undefined)"
proof (induction conf arbitrary: s)
  case Nil
  then show ?case by (simp add: routes_ok_def config_routes_def handler_blocks_def register_all_def)
next
  case (Cons st conf)
  then show ?case
    by (auto simp: register_locations_eq routes_ok_def config_routes_def handler_blocks_def
        register_all_append split: option.split)
qed

lemma register_all_facts:
  "config_of (fst (register_all rs s)) = config_of (fst s) \<and>
   headers (fst (register_all rs s)) = headers (fst s) \<and>
   route_map (fst (register_all rs s)) = foldl (\<lambda>m (u, h). um_insert m u h) (route_map (fst s)) rs \<and>
   mset (prefix_handler_list (snd (register_all rs s))) + mset (route_map (fst s)) =
     mset (prefix_handler_list (snd s)) + mset (route_map (fst (register_all rs s)))"
proof (induction rs arbitrary: s)
  case Nil
  then show ?case by (simp add: register_all_def)
next
  case (Cons e rs)
  obtain u h r rec where e: "e = (u, h)" "s = (r, rec)" by (cases e, cases s)
  show ?case
    using Cons.IH [of "register_route u h s"]
    by (auto simp: e register_all_def register_route_def um_insert_def prefix_recorder_def
        split: option.splits)
qed

lemma register_config_find:
  assumes "register_routes_from_config (new_router conf root_path, rec) = Inr (r, rec')"
  shows "config_of r = conf" "um_find (route_map r) u = map_of (config_routes conf) u"
proof -
  have s: "(r, rec') = register_all (config_routes conf) (new_router conf root_path, rec)"
    using assms by (auto simp: register_routes_from_config_def register_statements_eq split: if_splits)
  have "config_of r = conf" "route_map r = foldl (\<lambda>m (u, h). um_insert m u h) um_empty (config_routes conf)"
    using register_all_facts [of "config_routes conf" "(new_router conf root_path, rec)"] by (simp_all flip: s)
  then show "config_of r = conf" "um_find (route_map r) u = map_of (config_routes conf) u"
    by (simp_all add: um.find_insert_all um_simps)
qed

text \<open>
  C30: registering the routes of a configuration is defined exactly when each of its locations has
  a URI; then a URI is routed to the first handler block that lists it, and the prefixes recorded
  for the status page are the entries of the table.
\<close>

theorem register_config_exact:
  "(case register_routes_from_config (new_router conf root_path, new_recorder) of
      Inl e \<Rightarrow> e = Undefined \<and> \<not> routes_ok conf
    | Inr (r, rec) \<Rightarrow> routes_ok conf \<and> um_ok (route_map r) \<and>
        um_find (route_map r) u = map_of (config_routes conf) u \<and>
        mset (prefix_handler_list rec) = mset (route_map r))"
proof -
  define s where "s = register_all (config_routes conf) (new_router conf root_path, new_recorder)"
  have facts: "route_map (fst s) = foldl (\<lambda>m (u, h). um_insert m u h) um_empty (config_routes conf)"
    "mset (prefix_handler_list (snd s)) = mset (route_map (fst s))"
    using register_all_facts [of "config_routes conf" "(new_router conf root_path, new_recorder)"]
    by (simp_all add: s_def new_recorder_def um_empty_def)
  moreover have "um_ok (route_map (fst s))" "um_find (route_map (fst s)) u = map_of (config_routes conf) u"
    unfolding facts(1) by (simp_all add: um_intros um.find_insert_all um_simps)
  ultimately show ?thesis
    by (auto simp: register_routes_from_config_def register_statements_eq simp flip: s_def
        split: prod.splits)
qed

subsection \<open>Selecting a handler\<close>

lemma handler_blocks_Cons:
  "handler_blocks (st # conf) =
     (case child_block st of
        Some b \<Rightarrow> if 1 < length (tokens st) \<and> tokens st ! 0 = ''handler'' then [(tokens st ! 1, b)] else []
      | None \<Rightarrow> []) @ handler_blocks conf"
  by (simp add: handler_blocks_def split: option.split)

lemma has_tokens_iff: "has_tokens st \<longleftrightarrow> tokens st \<noteq> [] \<and> (\<forall>b. child_block st = Some b \<longrightarrow> list_all has_tokens b)"
  by (cases st) (auto split: option.splits)

lemma has_tokens_block: "has_tokens st \<Longrightarrow> child_block st = Some b \<Longrightarrow> list_all has_tokens b"
  by (cases st) simp

text \<open>The configuration of a handler is the last of its blocks.\<close>

lemma get_handler_config_loop_eq:
  "list_all has_tokens conf \<Longrightarrow>
     get_handler_config_loop name conf out =
       Inr (case map_of (rev (handler_blocks conf)) name of Some b \<Rightarrow> Some b | None \<Rightarrow> out)"
proof (induction name conf out rule: get_handler_config_loop.induct)
  case (1 name out)
  then show ?case by (simp add: handler_blocks_def)
next
  case (2 name st sts out)
  show ?case
  proof (cases "child_block st")
    case None
    with 2 show ?thesis by (simp add: handler_blocks_Cons)
  next
    case (Some b)
    obtain t ts where t: "tokens st = t # ts" using 2(3) by (auto simp: has_tokens_iff neq_Nil_conv)
    show ?thesis
      using 2(2) [OF Some] 2(3) Some t
      by (auto simp: handler_blocks_Cons map_of_append map_add_def split: option.split)
  qed
qed

lemma get_handler_config_eq:
  "list_all has_tokens (config_of r) \<Longrightarrow>
     get_handler_config r name = Inr (map_of (rev (handler_blocks (config_of r))) name)"
  by (simp add: get_handler_config_def get_handler_config_loop_eq split: option.split)

lemma handler_blocks_tokens:
  "list_all has_tokens conf \<Longrightarrow> (k, b) \<in> set (handler_blocks conf) \<Longrightarrow> list_all has_tokens b"
  unfolding handler_blocks_def by (fastforce simp: list_all_iff [of _ conf] dest: has_tokens_block)

lemma validProxy_eq:
  "list_all has_tokens b \<Longrightarrow> locations_ok b \<Longrightarrow> validProxy b name = Inr (name \<in> set (locations b))"
proof (induction b)
  case Nil
  then show ?case by (simp add: locations_def)
next
  case (Cons st b)
  obtain t ts where t: "tokens st = t # ts" using Cons.prems(1) by (auto simp: has_tokens_iff neq_Nil_conv)
  have IH: "validProxy b name = Inr (name \<in> set (locations b))"
    using Cons by (simp add: locations_ok_def)
  show ?case
  proof (cases "t = ''location''")
    case True
    with t Cons.prems(2) obtain t1 ts' where "ts = t1 # ts'"
      by (cases ts) (auto simp: locations_ok_def is_location_def)
    with True t IH show ?thesis by (auto simp: locations_def is_location_def)
  next
    case False
    with t IH show ?thesis by (simp add: locations_def is_location_def)
  qed
qed

lemma map_of_rev_None: "map_of (rev xs) k = None \<longleftrightarrow> k \<notin> fst ` set xs"
  by (simp add: map_of_eq_None_iff)

definition router_ok :: "router \<Rightarrow> bool" where
  "router_ok r \<longleftrightarrow> list_all has_tokens (config_of r) \<and> routes_ok (config_of r) \<and>
     (\<forall>u h. um_find (route_map r) u = Some h \<longrightarrow> h \<in> fst ` set (handler_blocks (config_of r)))"

text \<open>The name a route has: a registered block, or the default handler.\<close>

lemma get_route_handler_ok:
  assumes "router_ok r"
  shows "\<exists>n. get_route_handler r u = Inr n \<and> (n = ''default'' \<or> n \<in> fst ` set (handler_blocks (config_of r)))"
proof (cases "um_find (route_map r) u")
  case (Some h)
  then show ?thesis using assms by (auto simp: router_ok_def get_route_handler_def)
next
  case None
  show ?thesis
  proof (cases "map_of (rev (handler_blocks (config_of r))) ''proxy''")
    case None2: None
    then show ?thesis
      using None assms by (simp add: router_ok_def get_route_handler_def get_handler_config_eq)
  next
    case (Some b)
    then have in_b: "(''proxy'', b) \<in> set (handler_blocks (config_of r))" by (auto dest: map_of_SomeD)
    then have "validProxy b u = Inr (u \<in> set (locations b))"
      using assms by (intro validProxy_eq) (auto simp: router_ok_def routes_ok_def handler_blocks_tokens)
    then show ?thesis
      using None Some assms in_b
      by (force simp: router_ok_def get_route_handler_def get_handler_config_eq image_iff)
  qed
qed

lemma returns_if: "(c \<Longrightarrow> returns (fst (x w))) \<Longrightarrow> returns (fst (y w)) \<Longrightarrow> returns (fst ((if c then x else y) w))"
  by simp

lemma new_meme_handler_returns: "returns (fst (new_meme_handler sq (Some c) root w))"
  by (simp add: new_meme_handler_def parse_config_def io_bind_def sql_connect_def create_table_def case_prod_unfold Let_def)

definition proxy_block_ok :: "router \<Rightarrow> bool" where
  "proxy_block_ok r \<longleftrightarrow> (case map_of (rev (handler_blocks (config_of r))) ''proxy'' of
     Some b \<Rightarrow> proxy_config_ok b | None \<Rightarrow> True)"

lemma new_reverse_proxy_handler_eq:
  "new_reverse_proxy_handler (Some b) root =
     (if proxy_config_ok b then Inr (proxy_built '''' b
        \<lparr>location2proxy = um_empty, mime_type = '''', port_num = None, redirect = False\<rparr>) else Inl Undefined)"
  by (simp add: new_reverse_proxy_handler_def proxy_statements_eq)

text \<open>The handlers that need a configuration have one; that of the proxy may be malformed.\<close>

lemma select_handler_cases:
  assumes "router_ok r"
  shows "(case fst (select_handler env r u w) of
      Inl e \<Rightarrow> e = Undefined \<and> get_route_handler r (longest_prefix_match r u) = Inr ''proxy'' \<and> \<not> proxy_block_ok r
    | Inr h \<Rightarrow> get_route_handler r (longest_prefix_match r u) = Inr ''proxy'' \<longrightarrow> proxy_block_ok r)"
proof -
  obtain n where n: "get_route_handler r (longest_prefix_match r u) = Inr n"
    "n = ''default'' \<or> n \<in> fst ` set (handler_blocks (config_of r))"
    using get_route_handler_ok [OF assms] by blast
  have cfg: "get_handler_config r m = Inr (map_of (rev (handler_blocks (config_of r))) m)" for m
    using assms by (simp add: router_ok_def get_handler_config_eq)
  have some: "\<exists>b. map_of (rev (handler_blocks (config_of r))) m = Some b" if "n = m" "m \<noteq> ''default''" for m
    using n(2) that map_of_rev_None [of "handler_blocks (config_of r)" m]
    by (cases "map_of (rev (handler_blocks (config_of r))) m") auto
  show ?thesis
  proof (cases "n = ''proxy''")
    case True
    with some obtain b where "map_of (rev (handler_blocks (config_of r))) ''proxy'' = Some b" by auto
    then show ?thesis
      by (simp add: select_handler_def create_handler_defs n(1) True cfg new_reverse_proxy_handler_eq proxy_block_ok_def Let_def)
  next
    case False
    have static: "returns (fst (io_lift (bind_res
        (new_static_file_handler (map_of (rev (handler_blocks (config_of r))) m) root) (\<lambda>p. Inr (Static_file_handler p))) w))"
      if "n = m" "m \<noteq> ''default''" for m root
      using some [OF that] by (auto simp: new_static_file_handler_def get_static_file_path_def)
    have meme: "returns (fst (io_bind
        (new_meme_handler (database env) (map_of (rev (handler_blocks (config_of r))) ''meme'') root)
        (\<lambda>h. io_return (Meme_handler h)) w))"
      if m: "n = ''meme''" for root
    proof -
      obtain b where "map_of (rev (handler_blocks (config_of r))) ''meme'' = Some b" using some [OF m] by auto
      then show ?thesis using new_meme_handler_returns [of "database env" b root w]
        by (auto simp: io_bind_def returns_def split: prod.splits sum.splits)
    qed
    have "returns (fst (select_handler env r u w))"
      unfolding select_handler_def create_handler_defs n(1) io_bind_return Let_def cfg
      by (intro returns_if static meme) (use False in simp_all)
    with False show ?thesis by (auto simp: n(1) returns_iff)
  qed
qed

lemma register_config_router_ok:
  assumes "list_all has_tokens conf"
    and "register_routes_from_config (new_router conf root_path, rec) = Inr (r, rec')"
  shows "router_ok r"
proof -
  have routes: "routes_ok conf" and s: "(r, rec') = register_all (config_routes conf) (new_router conf root_path, rec)"
    using assms(2)
    by (auto simp: register_routes_from_config_def register_statements_eq split: if_splits)
  have c: "config_of r = conf" and m: "route_map r = foldl (\<lambda>m (u, h). um_insert m u h) um_empty (config_routes conf)"
    using register_all_facts [of "config_routes conf" "(new_router conf root_path, rec)"]
    by (simp_all flip: s)
  have "h \<in> fst ` set (handler_blocks conf)" if "um_find (route_map r) u = Some h" for u h
  proof -
    have "map_of (config_routes conf) u = Some h"
      using that unfolding m um.find_insert_all by (simp add: um_simps)
    then have "(u, h) \<in> set (config_routes conf)" by (rule map_of_SomeD)
    then show ?thesis by (force simp: config_routes_def)
  qed
  with assms(1) routes c show ?thesis by (simp add: router_ok_def)
qed

text \<open>
  In a router built from a parsed configuration, selecting a handler is defined for every URI:
  no handler that needs its configuration is given a null pointer, and no token is read out of
  range; except that a URI routed to the proxy is undefined exactly when the block of the proxy is
  malformed.
\<close>

theorem select_handler_defined:
  assumes "list_all has_tokens conf"
    and "register_routes_from_config (new_router conf root_path, rec) = Inr (r, rec')"
  shows "(case fst (select_handler env r u w) of
      Inl e \<Rightarrow> e = Undefined \<and> get_route_handler r (longest_prefix_match r u) = Inr ''proxy'' \<and> \<not> proxy_block_ok r
    | Inr h \<Rightarrow> get_route_handler r (longest_prefix_match r u) = Inr ''proxy'' \<longrightarrow> proxy_block_ok r)"
  using select_handler_cases [OF register_config_router_ok [OF assms]] .

definition sample_router_config :: config where
  "sample_router_config =
     [Statement [''handler'', ''echo''] (Some [Statement [''location'', ''/echo''] None]),
      Statement [''handler'', ''static1''] (Some [Statement [''location'', ''/s''] None,
        Statement [''root'', ''/files''] None])]"

definition sample_router :: router where
  "sample_router = (case register_routes_from_config (new_router sample_router_config ''.'', new_recorder) of
     Inr (r, rec) \<Rightarrow> r | Inl e \<Rightarrow> new_router [] '''')"

definition sample_env :: "nat environment" where
  "sample_env = \<lparr>files = sample_files, network = sample_network, database = counting_sqlite, random_uuid = io_return ''u''\<rparr>"

lemma sample_router_registered:
  "list_all has_tokens sample_router_config"
  "\<exists>rec. register_routes_from_config (new_router sample_router_config ''.'', new_recorder) = Inr (sample_router, rec)"
proof -
  show "list_all has_tokens sample_router_config" by code_simp
  have "map_sum id fst (register_routes_from_config (new_router sample_router_config ''.'', new_recorder)) =
      Inr sample_router" by code_simp
  then show "\<exists>rec. register_routes_from_config (new_router sample_router_config ''.'', new_recorder) = Inr (sample_router, rec)"
    by (cases "register_routes_from_config (new_router sample_router_config ''.'', new_recorder)") auto
qed

lemma sample_router_ok: "router_ok sample_router"
  using register_config_router_ok sample_router_registered by blast

lemma sample_router_facts:
  "config_of sample_router = sample_router_config"
  "route_map sample_router = [(''/s'', ''static1''), (''/echo'', ''echo'')]"
  "handler_blocks sample_router_config = [(''echo'', [Statement [''location'', ''/echo''] None]),
     (''static1'', [Statement [''location'', ''/s''] None, Statement [''root'', ''/files''] None])]"
  "'''' \<notin> fst ` set (config_routes sample_router_config)"
  by code_simp+

theorem select_handler_defined_witness: "returns (fst (select_handler sample_env sample_router ''/s/a.html'' 0))"
proof -
  have "get_route_handler sample_router (longest_prefix_match sample_router ''/s/a.html'') = Inr ''static1''" by code_simp
  moreover obtain rec where
    "register_routes_from_config (new_router sample_router_config ''.'', new_recorder) = Inr (sample_router, rec)"
    using sample_router_registered(2) by blast
  note select_handler_defined [OF sample_router_registered(1) this, of "''/s/a.html''" sample_env 0]
  ultimately show ?thesis by (auto simp: returns_def split: sum.splits)
qed

subsection \<open>The response to a request\<close>

definition register_default_headers :: "(string \<times> string) list \<Rightarrow> router \<Rightarrow> router" where
  "register_default_headers hs r = foldl (\<lambda>r (n, v). register_default_header n v r) r hs"

lemma register_default_headers_eq:
  "register_default_headers hs r = r\<lparr>headers := foldl (\<lambda>m (n, v). um_assign m n v) (headers r) hs\<rparr>"
  unfolding register_default_headers_def
  by (induction hs arbitrary: r) (auto simp: register_default_header_def)

lemma map_of_rev_distinct: "distinct (map fst xs) \<Longrightarrow> map_of (rev xs) = map_of xs"
  by (subst map_of_inject_set) (simp_all add: rev_map [symmetric])

lemma apply_default_headers_fields:
  "get_status_code (apply_default_headers r res) = get_status_code res"
  "Response.get_body (apply_default_headers r res) = Response.get_body res"
  "response_ok res \<Longrightarrow> response_ok (apply_default_headers r res)"
  by (simp_all add: apply_default_headers_def set_headers_fold handler_simps response_ok_def um_intros)

lemma apply_default_headers_get:
  assumes "um_ok (headers r)"
  shows "Response.get_header (apply_default_headers r res) q =
    (case um_find (headers r) q of Some v \<Rightarrow> v | None \<Rightarrow> Response.get_header res q)"
proof -
  have "map_of (rev (headers r)) q = um_find (headers r) q"
    using assms map_of_rev_distinct [of "headers r"] by (simp add: um_ok_def um_find_def)
  then show ?thesis
    by (simp add: apply_default_headers_def set_headers_fold Response.get_header_def um_get_def
        um.find_assign_all split: option.split)
qed

lemma default_headers_registered:
  "um_ok (headers (register_default_headers hs (new_router conf root_path)))"
  "um_find (headers (register_default_headers hs (new_router conf root_path))) q = map_of (rev hs) q"
  by (simp_all add: register_default_headers_eq um_intros um.find_assign_all um_simps split: option.split)

text \<open>What a request does to the recorder, if it returns.\<close>

lemma route_request_eq:
  "route_request env r req (rec, w) = (Inr (resp, l), (rec', w')) \<longleftrightarrow>
     (\<exists>h w1 out name. select_handler env r (get_uri req) w = (Inr h, w1) \<and>
        handle_request env rec h req w1 = (Inr out, w') \<and>
        get_route_handler r (longest_prefix_match r (get_uri req)) = Inr name \<and>
        resp = apply_default_headers r out \<and> rec' = request_recorder (get_uri req) (get_status_code out) rec \<and>
        l = ''ResponseCode::'' @ to_dec (unat (get_status_code out)) @ ''::RequestHandler::'' @ name)"
  by (auto simp: route_request_def io_bind_eq_Inr on_snd_eq_iff io_lift_def io_return_def)

text \<open>
  C8: a routed request is answered with the status and the body of the handler selected for its
  URI; the default headers override the handler's own, the last registration of a name counting;
  exactly one entry, the URI and that status, is added to the record.
\<close>

theorem route_request_answer:
  assumes "headers r = headers (register_default_headers hs (new_router conf root_path))"
    and "route_request env r req (rec, w) = (Inr (resp, log), (rec', w'))"
  shows "\<exists>h w1 out. select_handler env r (get_uri req) w = (Inr h, w1) \<and>
    handle_request env rec h req w1 = (Inr out, w') \<and>
    get_status_code resp = get_status_code out \<and> Response.get_body resp = Response.get_body out \<and>
    (\<forall>q. Response.get_header resp q =
       (case map_of (rev hs) q of Some v \<Rightarrow> v | None \<Rightarrow> Response.get_header out q)) \<and>
    url_response_list rec' = url_response_list rec @ [(get_uri req, get_status_code resp)] \<and>
    prefix_handler_list rec' = prefix_handler_list rec"
proof -
  obtain h w1 out where h: "select_handler env r (get_uri req) w = (Inr h, w1)"
      "handle_request env rec h req w1 = (Inr out, w')"
    and resp: "resp = apply_default_headers r out"
    and rec': "rec' = request_recorder (get_uri req) (get_status_code out) rec"
    using assms(2) unfolding route_request_eq by blast
  have "um_ok (headers r)" unfolding assms(1) by (rule default_headers_registered)
  then show ?thesis
    using h by (auto simp: resp rec' apply_default_headers_fields apply_default_headers_get
        assms(1) default_headers_registered request_recorder_def)
qed

lemma default_handle_status: "get_status_code (default_handle_request req) = 404"
  by (simp add: handler_defs handler_simps)

lemma log_404: "to_dec (unat (404 :: 32 word)) = ''404''"
  by code_simp

lemma route_to_default:
  assumes "get_route_handler r (longest_prefix_match r (get_uri req)) = Inr ''default''"
    and "get_handler_config r ''default'' = Inr c"
  shows "route_request env r req (rec, w) = (Inr (apply_default_headers r (default_handle_request req),
      ''ResponseCode::404::RequestHandler::default''), (request_recorder (get_uri req) 404 rec, w))"
proof -
  have "select_handler env r (get_uri req) w = (Inr Default_handler, w)"
    by (simp add: select_handler_def assms Let_def)
  then show ?thesis
    unfolding route_request_eq using assms(1) default_handle_status [of req] log_404 by (intro exI conjI) auto
qed

lemma default_only_route:
  "route_request env (register_default_headers hs (new_router [] root_path)) req (rec, w) =
     (Inr (apply_default_headers (register_default_headers hs (new_router [] root_path)) (default_handle_request req),
       ''ResponseCode::404::RequestHandler::default''), (request_recorder (get_uri req) 404 rec, w))"
  by (rule route_to_default)
    (simp_all add: register_default_headers_eq longest_prefix_match_def get_route_handler_def um_defs get_handler_config_def)

theorem route_request_answer_witness:
  "url_response_list (request_recorder (get_uri sample_request) 404 new_recorder) = [(''/api'', 404)]"
proof -
  let ?r = "register_default_headers [(''Server'', ''x'')] (new_router [] '''')"
  have u: "get_uri sample_request = ''/api''" by code_simp
  have st: "get_status_code (apply_default_headers ?r (default_handle_request sample_request)) = 404"
    unfolding apply_default_headers_fields by (rule default_handle_status)
  have "url_response_list (request_recorder (get_uri sample_request) 404 new_recorder) =
      url_response_list new_recorder @ [(get_uri sample_request,
        get_status_code (apply_default_headers ?r (default_handle_request sample_request)))]"
    using route_request_answer [OF refl default_only_route [of sample_env "[(''Server'', ''x'')]" "''''" sample_request new_recorder 0]]
    by blast
  then show ?thesis by (simp add: u st new_recorder_def)
qed

text \<open>The handlers that serve files are made from their block.\<close>

lemma select_static:
  assumes "router_ok r" "n \<in> {''static1'', ''static2'', ''webMeme'', ''imageMeme''}"
    and "um_find (route_map r) (longest_prefix_match r u) = Some n"
  shows "\<exists>b path. map_of (rev (handler_blocks (config_of r))) n = Some b \<and>
    new_static_file_handler (Some b) (server_root r) = Inr path \<and>
    select_handler env r u w = (Inr (Static_file_handler path), w)"
proof -
  have "n \<in> fst ` set (handler_blocks (config_of r))" using assms(1,3) by (simp add: router_ok_def)
  then obtain b where b: "map_of (rev (handler_blocks (config_of r))) n = Some b"
    using map_of_rev_None [of "handler_blocks (config_of r)" n]
    by (cases "map_of (rev (handler_blocks (config_of r))) n") auto
  have cfg: "get_handler_config r m = Inr (map_of (rev (handler_blocks (config_of r))) m)" for m
    using assms(1) by (simp add: router_ok_def get_handler_config_eq)
  obtain path where path: "new_static_file_handler (Some b) (server_root r) = Inr path"
    by (simp add: new_static_file_handler_def get_static_file_path_def)
  have name: "get_route_handler r (longest_prefix_match r u) = Inr n" using assms(3) by (simp add: get_route_handler_def)
  consider "n = ''static1''" | "n = ''static2''" | "n = ''webMeme''" | "n = ''imageMeme''" using assms(2) by blast
  then have "select_handler env r u w = io_lift (static_create_handler (Some b) (server_root r)) w"
    by cases (use b in \<open>simp_all add: select_handler_def name cfg Let_def\<close>)
  then have "select_handler env r u w = (Inr (Static_file_handler path), w)"
    by (simp add: static_create_handler_def path)
  with b path show ?thesis by blast
qed

lemma unmatched_route:
  assumes "router_ok r" "\<forall>(p, h)\<in>set (route_map r). \<not> prefix p u"
    and "'''' \<notin> fst ` set (config_routes (config_of r))"
  shows "get_route_handler r (longest_prefix_match r u) = Inr ''default''"
    and "\<exists>c. get_handler_config r ''default'' = Inr c"
proof -
  have "longest_prefix_match r u = ''''"
    using lpm_longest [of u r] assms(2) by (fastforce simp: longest_of_def)
  moreover have "um_find (route_map r) '''' = None"
    using assms(2) by (auto simp: um_find_None_iff)
  moreover have cfg: "get_handler_config r n = Inr (map_of (rev (handler_blocks (config_of r))) n)" for n
    using assms(1) by (simp add: router_ok_def get_handler_config_eq)
  moreover have "validProxy b '''' = Inr False" if "map_of (rev (handler_blocks (config_of r))) ''proxy'' = Some b" for b
  proof -
    have b: "(''proxy'', b) \<in> set (handler_blocks (config_of r))" using that by (auto dest: map_of_SomeD)
    then have "'''' \<notin> set (locations b)" using assms(3) by (force simp: config_routes_def)
    moreover have "validProxy b '''' = Inr ('''' \<in> set (locations b))"
      using assms(1) b by (intro validProxy_eq) (auto simp: router_ok_def routes_ok_def handler_blocks_tokens)
    ultimately show ?thesis by simp
  qed
  ultimately show "get_route_handler r (longest_prefix_match r u) = Inr ''default''"
    by (simp add: get_route_handler_def split: option.split)
  show "\<exists>c. get_handler_config r ''default'' = Inr c" by (simp add: cfg)
qed

lemma unmatched_selects:
  assumes "router_ok r" "\<forall>(p, h)\<in>set (route_map r). \<not> prefix p u"
    and "'''' \<notin> fst ` set (config_routes (config_of r))"
  shows "select_handler env r u w = (Inr Default_handler, w)"
  using unmatched_route [OF assms] by (auto simp: select_handler_def Let_def)

lemma unmatched_answer:
  assumes "router_ok r" "\<forall>(p, h)\<in>set (route_map r). \<not> prefix p (get_uri req)"
    and "'''' \<notin> fst ` set (config_routes (config_of r))"
  shows "route_request env r req (rec, w) = (Inr (apply_default_headers r (default_handle_request req),
      ''ResponseCode::404::RequestHandler::default''), (request_recorder (get_uri req) 404 rec, w))"
proof -
  obtain c where "get_handler_config r ''default'' = Inr c" using unmatched_route(2) [OF assms] by blast
  with unmatched_route(1) [OF assms] show ?thesis by (rule route_to_default)
qed

text \<open>
  A request whose URI starts with no registered prefix is answered 404 by the default handler
  when no block of the configuration has the empty location, and is recorded and logged as such.
\<close>

theorem unmatched_is_404:
  assumes "router_ok r" "\<forall>(p, h)\<in>set (route_map r). \<not> prefix p (get_uri req)"
    and "'''' \<notin> fst ` set (config_routes (config_of r))"
  shows "\<exists>resp. route_request env r req (rec, w) =
      (Inr (resp, ''ResponseCode::404::RequestHandler::default''), (request_recorder (get_uri req) 404 rec, w)) \<and>
    get_status_code resp = 404 \<and>
    Response.get_body resp = ''The requested resource at '' @ get_uri req @ '' could not be found!''"
  unfolding unmatched_answer [OF assms]
  by (simp add: apply_default_headers_fields) (simp add: handler_defs handler_simps)

theorem unmatched_is_404_witness:
  "\<exists>resp. route_request sample_env sample_router sample_request (new_recorder, 0) =
     (Inr (resp, ''ResponseCode::404::RequestHandler::default''),
      (request_recorder (get_uri sample_request) 404 new_recorder, 0))"
proof -
  have "get_uri sample_request = ''/api''" by code_simp
  then show ?thesis
    using unmatched_is_404 [OF sample_router_ok, of sample_request sample_env new_recorder 0] sample_router_facts by force
qed

end
