(* ===== verification/Session_Props.thy ===== *)
theory Session_Props
  imports Session
begin

text \<open>
  The properties of a session: its life cycle, what it answers in each case, requests that do not
  fit the buffer, and the way of an echo request from the socket to the response read back.
\<close>

subsection \<open>The service behind a session\<close>

lemma handle_valid_request_eq:
  "handle_valid_request route req (s, sh) = (case route req sh of
      (Inl e, sh') \<Rightarrow> (Inl e, (s, sh'))
    | (Inr (resp, l), sh') \<Rightarrow> (Inr (), (session_write (snd (generate_response resp))
        (s\<lparr>holder := Some (fst (generate_response resp))\<rparr>), sh')))"
  by (simp add: handle_valid_request_def io_bind_def on_snd_def case_prod_unfold Let_def split: sum.split)

lemma handle_read_ok:
  "handle_read route beyond False n (s, sh) =
    (let req = new_request (take n (data_buf s)) beyond
     in if freed_read req then (Inl Undefined, (s, sh))
        else if \<not> is_valid req then (Inr (), (handle_invalid_request req s, sh))
        else (case route req sh of
            (Inl (Raise e), sh') \<Rightarrow> (Inr (), (handle_error s, sh'))
          | (Inl f, sh') \<Rightarrow> (Inl f, (s, sh'))
          | (Inr (resp, l), sh') \<Rightarrow> (Inr (), (session_write (snd (generate_response resp))
              (s\<lparr>holder := Some (fst (generate_response resp))\<rparr>), sh'))))"
  by (simp add: handle_read_def handle_success_def io_bind_def handle_valid_request_eq io_return_def Let_def
      split: prod.split sum.split fault.split)

text \<open>The four ways a read can be answered.\<close>

lemma handle_read_cases:
  assumes "handle_read route beyond error n (s, sh) = (Inr u, (s', sh'))"
  obtains (error) "error" "s' = handle_error s" "sh' = sh"
  | (invalid) req where "req = new_request (take n (data_buf s)) beyond" "\<not> is_valid req"
      "s' = handle_invalid_request req s" "sh' = sh"
  | (thrown) req e where "req = new_request (take n (data_buf s)) beyond" "is_valid req" "\<not> freed_read req"
      "route req sh = (Inl (Raise e), sh')" "s' = handle_error s"
  | (answered) req resp l where "req = new_request (take n (data_buf s)) beyond" "is_valid req" "\<not> freed_read req"
      "route req sh = (Inr (resp, l), sh')"
      "s' = session_write (snd (generate_response resp)) (s\<lparr>holder := Some (fst (generate_response resp))\<rparr>)"
proof -
  define req where "req = new_request (take n (data_buf s)) beyond"
  obtain res sh1 where res: "route req sh = (res, sh1)" by (cases "route req sh")
  have freed: "\<not> freed_read req" if "\<not> error"
    using assms that by (auto simp: handle_read_ok req_def [symmetric])
  consider "error" | "\<not> error" "\<not> is_valid req" | e where "\<not> error" "is_valid req" "res = Inl (Raise e)"
    | f where "\<not> error" "is_valid req" "res = Inl f" "\<forall>e. f \<noteq> Raise e"
    | resp l where "\<not> error" "is_valid req" "res = Inr (resp, l)"
    by (cases res) auto
  then show thesis
  proof cases
    case 1
    then show thesis using assms error by (simp add: handle_read_def)
  next
    case 2
    then show thesis using assms freed invalid [OF req_def] by (simp add: handle_read_ok req_def [symmetric])
  next
    case 3
    then show thesis using assms freed res thrown [OF req_def] by (simp add: handle_read_ok req_def [symmetric])
  next
    case 4
    then show thesis using assms freed res by (cases f) (simp_all add: handle_read_ok req_def [symmetric])
  next
    case 5
    then show thesis using assms freed res answered [OF req_def] by (simp add: handle_read_ok req_def [symmetric])
  qed
qed

lemma handle_read_effect:
  assumes "handle_read route beyond error n (s, sh) = (Inr u, (s', sh'))"
  shows "reads s' = reads s \<and> writes s' = writes s + 1 \<and> deletions s' = deletions s \<and>
    (\<exists>out. sent s' = sent s @ [out])"
  by (rule handle_read_cases [OF assms]) (auto simp: session_simps)

locale request_service =
  fixes route :: "'w route"
  assumes one_record: "route req (rec, w) = (Inr (resp, l), (rec', w')) \<Longrightarrow>
      url_response_list rec' = url_response_list rec @ [(get_uri req, get_status_code resp)] \<and>
      prefix_handler_list rec' = prefix_handler_list rec"
    and no_record: "route req (rec, w) = (Inl f, (rec', w')) \<Longrightarrow> rec' = rec"
begin

lemma handle_read_record:
  assumes "handle_read route beyond error n (s, (rec, w)) = (Inr u, (s', (rec', w')))"
  shows "rec' = rec \<or> (\<exists>u c. url_response_list rec' = url_response_list rec @ [(u, c)] \<and>
    prefix_handler_list rec' = prefix_handler_list rec)"
  by (rule handle_read_cases [OF assms]) (use one_record no_record in blast)+

lemma session_step_grows: "session_step route st st' \<Longrightarrow> grows (fst (snd st)) (fst (snd st'))"
proof (induction rule: session_step.induct)
  case (read_done s bytes beyond sh st')
  obtain rec w s' rec' w' where "sh = (rec, w)" "st' = (s', (rec', w'))" by (cases sh, cases st') auto
  then show ?case using read_done handle_read_record by (fastforce simp: grows_def)
next
  case (read_failed s beyond sh st')
  then show ?case by (auto simp: handle_read_def)
qed simp

lemma session_run_grows: "session_run route st0 st \<Longrightarrow> grows (fst (snd st0)) (fst (snd st))"
proof (induction rule: session_run.induct)
  case (step st st')
  then show ?case using session_step_grows grows_trans by blast
next
  case (other s rec w es w')
  then show ?case using grows_run grows_trans by (metis fst_conv snd_conv)
qed simp

end

lemma route_request_records:
  assumes "route_request env r req (rec, w) = (Inr (resp, l), (rec', w'))"
  shows "url_response_list rec' = url_response_list rec @ [(get_uri req, get_status_code resp)] \<and>
    prefix_handler_list rec' = prefix_handler_list rec"
  using assms unfolding route_request_eq by (auto simp: apply_default_headers_fields request_recorder_def)

lemma select_handler_route:
  "select_handler env r u w = (Inr h, w') \<Longrightarrow> \<exists>n. get_route_handler r (longest_prefix_match r u) = Inr n"
  by (cases "get_route_handler r (longest_prefix_match r u)") (auto simp: select_handler_def)

text \<open>A request that is not answered is not recorded.\<close>

lemma route_request_fault:
  assumes "route_request env r req (rec, w) = (Inl f, (rec', w'))"
  shows "rec' = rec"
proof (cases "select_handler env r (get_uri req) w")
  case (Pair res w1)
  show ?thesis
  proof (cases res)
    case (Inl e)
    then show ?thesis using assms Pair by (simp add: route_request_def io_bind_def)
  next
    case (Inr h)
    then obtain n where n: "get_route_handler r (longest_prefix_match r (get_uri req)) = Inr n"
      using select_handler_route [of env r "get_uri req" w h w1] Pair by blast
    show ?thesis
      using assms Pair Inr n
      by (cases "handle_request env rec h req w1"; cases "fst (handle_request env rec h req w1)")
        (auto simp: route_request_def io_bind_def io_return_def io_lift_def)
  qed
qed

interpretation routed: request_service "route_request env r" for env r
  by unfold_locales (rule route_request_records route_request_fault, assumption)+

text \<open>
  While a session runs, whatever other sessions record in between, the record of requests and
  prefixes only grows: what was recorded when the session started stays at the front.
\<close>

theorem session_keeps_record:
  assumes "session_run (route_request env r) (s0, (rec0, w0)) (s, (rec, w))"
  shows "prefix (url_response_list rec0) (url_response_list rec) \<and>
    prefix (prefix_handler_list rec0) (prefix_handler_list rec)"
  using routed.session_run_grows [OF assms] by (simp add: grows_def)

definition sample_start :: session where
  "sample_start = session_start None (new_session (replicate 1024 NUL))"

lemma sample_read_failed:
  "session_run route (sample_start, (new_recorder, w)) (handle_error (sample_start\<lparr>reads := 0\<rparr>), (new_recorder, w))"
proof (rule session_run.step [OF session_run.init])
  have "reads sample_start = 1" by (simp add: sample_start_def session_simps)
  then show "session_step route (sample_start, (new_recorder, w))
      (handle_error (sample_start\<lparr>reads := 0\<rparr>), (new_recorder, w))"
    by (intro session_step.read_failed) (simp_all add: handle_read_def)
qed

theorem session_keeps_record_witness:
  "prefix (url_response_list new_recorder) (url_response_list (run_events [Ev_Request ''/a'' 200] new_recorder))"
  using session_keeps_record [OF session_run.other [OF sample_read_failed [of _ "0 :: nat"]]] by blast

subsection \<open>The life cycle\<close>

definition session_inv :: "session \<Rightarrow> bool" where
  "session_inv s \<longleftrightarrow> reads s + writes s + deletions s = 1 \<and> length (sent s) + reads s = 1"

lemma handle_write_cases:
  "handle_write error shutdown_ok s = Inr s' \<Longrightarrow> reads s' = reads s \<and> writes s' = writes s \<and>
     sent s' = sent s \<and> deletions s' = deletions s + 1"
  by (auto simp: handle_write_def session_close_def split: if_splits)

lemma session_step_inv: "session_step route st st' \<Longrightarrow> session_inv (fst st) \<Longrightarrow> session_inv (fst st')"
proof (induction rule: session_step.induct)
  case (read_done s bytes beyond sh st')
  moreover have "sent s = [] \<and> reads s = 1 \<and> writes s = 0 \<and> deletions s = 0"
    using read_done by (cases "sent s") (auto simp: session_inv_def)
  ultimately show ?case
    using handle_read_effect [of route beyond False "length bytes" "receive bytes s" sh "()" "fst st'" "snd st'"]
    by (auto simp: session_inv_def receive_def)
next
  case (read_failed s beyond sh st')
  moreover have "sent s = [] \<and> reads s = 1 \<and> writes s = 0 \<and> deletions s = 0"
    using read_failed by (cases "sent s") (auto simp: session_inv_def)
  ultimately show ?case
    using handle_read_effect [of route beyond True 0 "s\<lparr>reads := reads s - 1\<rparr>" sh "()" "fst st'" "snd st'"]
    by (auto simp: session_inv_def)
next
  case (write_done s error shutdown_ok s' sh)
  then show ?case by (auto simp: session_inv_def dest!: handle_write_cases)
qed

lemma session_run_inv: "session_run route st0 st \<Longrightarrow> session_inv (fst st0) \<Longrightarrow> session_inv (fst st)"
  by (induction rule: session_run.induct) (auto dest: session_step_inv)

text \<open>
  C3: from its start to its deletion a session has exactly one asynchronous operation outstanding or
  has been deleted exactly once: no callback runs on a deleted session and none is deleted twice.
  At most one response is sent, and a deleted session has sent one.
\<close>

theorem session_lifecycle:
  assumes "session_run route (session_start remote (new_session mem), sh0) (s, sh)"
  shows "reads s + writes s + deletions s = 1 \<and> length (sent s) \<le> 1 \<and>
    (deletions s = 1 \<longrightarrow> length (sent s) = 1 \<and> reads s = 0 \<and> writes s = 0)"
proof -
  have "session_inv (session_start remote (new_session mem))"
    by (simp add: session_inv_def session_simps)
  with session_run_inv [OF assms] have "session_inv s" by simp
  then show ?thesis by (auto simp: session_inv_def)
qed

theorem session_lifecycle_witness:
  "length (sent (handle_error (sample_start\<lparr>reads := 0\<rparr>))) \<le> 1"
  using session_lifecycle [OF sample_read_failed [unfolded sample_start_def, of _ "0 :: nat"]]
  by (simp add: sample_start_def)

subsection \<open>The end of a session\<close>

text \<open>What is still to come: a read and the write after it, or a write.\<close>

definition callbacks_left :: "session \<Rightarrow> nat" where
  "callbacks_left s = 2 * reads s + writes s"

lemma handle_read_left:
  assumes "handle_read route beyond error n (s0, sh) = (Inr (), (s', sh'))" "reads s0 = reads s - 1" "writes s0 = writes s" "0 < reads s"
  shows "callbacks_left s' < callbacks_left s"
  using handle_read_effect [OF assms(1)] assms(2-) by (auto simp: callbacks_left_def)

lemma session_step_left: "session_step route (s, sh) (s', sh') \<Longrightarrow> callbacks_left s' < callbacks_left s"
  by (erule session_stepE)
    (auto simp: receive_def callbacks_left_def dest!: handle_write_cases elim!: handle_read_left [unfolded callbacks_left_def])

text \<open>
  No session runs forever: whatever its router does, and whatever other sessions do to the
  recorder and the outside world between two of its callbacks, its steps are well founded.
\<close>

theorem session_terminates: "wfp (\<lambda>s' s. \<exists>sh sh'. session_step route (s, sh) (s', sh'))"
proof (rule wfp_if_convertible_to_nat [where f = callbacks_left])
  fix s' s assume "\<exists>sh sh'. session_step route (s, sh) (s', sh')"
  then show "callbacks_left s' < callbacks_left s" by (elim exE) (rule session_step_left)
qed

subsection \<open>What is answered\<close>

lemma clean_text_header: "headers_clean [(''Content-Type'', ''text/plain'')]"
  by code_simp

lemma plain_headers:
  "response_headers (set_header ''Content-Type'' ''text/plain'' (new_response sc b)) = [(''Content-Type'', ''text/plain'')]"
  by (simp add: response_simps um_defs)

lemma read_plain: "read_response (snd (generate_response (set_header ''Content-Type'' ''text/plain'' (new_response sc b)))) =
    Some (status_line_text sc, [(''Content-Type'', ''text/plain'')], b)"
  by (simp add: read_generate_response plain_headers clean_text_header)

lemma status_texts:
  "status_line_text 400 = ''HTTP/1.1 400 Bad Request''"
  "status_line_text 500 = ''HTTP/1.1 500 Internal Server Error''"
  "status_line_text 200 = ''HTTP/1.1 200 OK''"
  "status_line_text 404 = ''HTTP/1.1 404 Not Found''"
  by code_simp+

lemma received_bytes: "take (length bytes) (data_buf (receive bytes s)) = bytes"
  by (simp add: receive_def)

lemma handle_read_invalid:
  assumes "\<not> is_valid (new_request bytes beyond)"
  shows "handle_read route beyond False (length bytes) (receive bytes s, sh) =
    (Inr (), (handle_invalid_request (new_request bytes beyond) (receive bytes s), sh))"
  using assms invalid_not_freed [OF assms] by (simp add: handle_read_def handle_success_def received_bytes io_bind_def)

lemma handle_read_valid:
  assumes "is_valid (new_request bytes beyond)" "\<not> freed_read (new_request bytes beyond)"
  shows "handle_read route beyond False (length bytes) (receive bytes s, sh) =
    (case route (new_request bytes beyond) sh of
       (Inl (Raise e), sh') \<Rightarrow> (Inr (), (handle_error (receive bytes s), sh'))
     | (Inl f, sh') \<Rightarrow> (Inl f, (receive bytes s, sh'))
     | (Inr (resp, l), sh') \<Rightarrow> (Inr (), (session_write (snd (generate_response resp))
         ((receive bytes s)\<lparr>holder := Some (fst (generate_response resp))\<rparr>), sh')))"
  using assms by (simp add: handle_read_ok received_bytes)

text \<open>A valid request that the router answers.\<close>

lemma handle_read_answered:
  assumes "is_valid (new_request bytes beyond)" "\<not> freed_read (new_request bytes beyond)"
    and "route (new_request bytes beyond) sh = (Inr (resp, l), sh')"
  shows "\<exists>s'. handle_read route beyond False (length bytes) (receive bytes s, sh) = (Inr (), (s', sh')) \<and>
    last (sent s') = snd (generate_response resp)"
  using assms by (simp add: handle_read_valid session_write_def)

text \<open>
  A valid request, read whole, is answered with the response of the handler that is selected for its
  URI, when no default headers are set, and recorded with its status.
\<close>

lemma route_request_handler:
  assumes "headers r = um_empty" "select_handler env r (get_uri req) w = (Inr h, w1)"
    and "handle_request env rec h req w1 = (Inr out, w2)"
  shows "\<exists>l. route_request env r req (rec, w) =
    (Inr (out, l), (request_recorder (get_uri req) (get_status_code out) rec, w2))"
proof -
  obtain name where "get_route_handler r (longest_prefix_match r (get_uri req)) = Inr name"
    using select_handler_route [OF assms(2)] by blast
  moreover have "apply_default_headers r out = out"
    by (simp add: apply_default_headers_def assms(1) um_empty_def)
  ultimately show ?thesis unfolding route_request_eq using assms(2,3) by auto
qed

lemma served_by:
  assumes "status_line_ok m u d1 d2" "data = status_line m u d1 d2 @ rest" "\<not> long_query u" "headers r = um_empty"
    and "select_handler env r (fst (cut_query u)) w = (Inr h, w1)"
    and "handle_request env rec h (new_request data beyond) w1 = (Inr out, w2)"
  shows "\<exists>s'. handle_read (route_request env r) beyond False (length data) (receive data s, (rec, w)) =
      (Inr (), (s', (request_recorder (fst (cut_query u)) (get_status_code out) rec, w2))) \<and>
    last (sent s') = snd (generate_response out)"
proof -
  have req: "is_valid (new_request data beyond)" "get_uri (new_request data beyond) = fst (cut_query u)"
    "\<not> freed_read (new_request data beyond)"
    using assms(3) by (simp_all add: new_request_ok [OF assms(1,2)] request_getters)
  from route_request_handler [OF assms(4) _ assms(6), of w] assms(5) obtain l where
    "route_request env r (new_request data beyond) (rec, w) =
      (Inr (out, l), (request_recorder (fst (cut_query u)) (get_status_code out) rec, w2))"
    by (auto simp: req(2))
  from handle_read_answered [of data beyond "route_request env r" "(rec, w)", OF req(1,3) this] show ?thesis .
qed

text \<open>
  C26: a read that completes is answered with 400 and the text of the request when it is not valid,
  with 500 when the router throws, and otherwise with the router's response; nothing is recorded
  in the first two cases. Bytes left in the buffer by an earlier read play no part.
\<close>

theorem session_answers:
  assumes "handle_read route beyond False (length bytes) (receive bytes s, sh) = (Inr (), (s', sh'))"
  defines "req \<equiv> new_request bytes beyond"
  shows "(\<not> is_valid req \<longrightarrow> sh' = sh \<and>
      read_response (last (sent s')) =
        Some (''HTTP/1.1 400 Bad Request'', [(''Content-Type'', ''text/plain'')], c_string (bytes @ beyond))) \<and>
    (\<forall>e sh''. is_valid req \<longrightarrow> route req sh = (Inl (Raise e), sh'') \<longrightarrow> sh' = sh'' \<and>
      read_response (last (sent s')) =
        Some (''HTTP/1.1 500 Internal Server Error'', [(''Content-Type'', ''text/plain'')],
          ''Oops! Looks like something went wrong on our side. Please try again later.'')) \<and>
    (\<forall>resp l sh''. is_valid req \<longrightarrow> route req sh = (Inr (resp, l), sh'') \<longrightarrow> sh' = sh'' \<and>
      last (sent s') = snd (generate_response resp))"
proof -
  have raw: "get_raw_request req = bytes @ beyond"
    unfolding req_def
    by (cases rule: new_request_cases [of bytes]) (simp_all add: new_request_ok new_request_invalid get_raw_request_def)
  show ?thesis
  proof (cases "is_valid req")
    case False
    then show ?thesis
      using assms(1) handle_read_invalid [of bytes beyond route s sh]
      by (auto simp: req_def raw [unfolded req_def] handle_invalid_request_def session_write_def invalid_response_def
          read_plain status_texts)
  next
    case True
    have freed: "\<not> freed_read req" using assms(1) by (auto simp: handle_read_ok received_bytes req_def)
    obtain res sh1 where res: "route req sh = (res, sh1)" by (cases "route req sh")
    show ?thesis
    proof (cases res)
      case (Inl f)
      then obtain e where f: "f = Raise e"
        using assms(1) True freed res by (cases f) (simp_all add: handle_read_valid req_def)
      show ?thesis
        using assms(1) True freed res
        by (auto simp: Inl f handle_read_valid req_def handle_error_def session_write_def error_response_def
            read_plain status_texts)
    next
      case (Inr x)
      then show ?thesis
        using assms(1) True freed res
        by (cases x) (auto simp: handle_read_valid req_def session_write_def)
    qed
  qed
qed

lemma empty_invalid: "\<not> is_valid (new_request [] beyond)"
proof -
  have "status_line m u d1 d2 \<noteq> []" for m u d1 d2 by (simp add: status_line_def)
  then show ?thesis by (subst new_request_invalid) (auto simp: is_valid_def)
qed

theorem session_answers_witness:
  "read_response (last (sent (handle_invalid_request (new_request [] [NUL]) (receive [] sample_start)))) =
     Some (''HTTP/1.1 400 Bad Request'', [(''Content-Type'', ''text/plain'')], '''')"
  using session_answers [OF handle_read_invalid [OF empty_invalid], of "[NUL]"] empty_invalid
  by (simp add: c_string_def)

lemma cut_status_line_invalid:
  assumes "status_line_ok m u d1 d2" "prefix bytes (status_line m u d1 d2 @ rest)"
    and "length bytes < length (status_line m u d1 d2)"
  shows "\<not> is_valid (new_request bytes beyond)"
proof (cases rule: new_request_cases [of bytes])
  case (1 m' u' d1' d2' rest')
  obtain t where "status_line m u d1 d2 @ rest = bytes @ t" using assms(2) by (auto simp: prefix_def)
  then have "status_line m u d1 d2 @ rest = status_line m' u' d1' d2' @ (rest' @ t)" using 1 by simp
  from status_line_unique [OF assms(1) 1(1) this] 1(2) assms(3) show ?thesis by simp
next
  case 2
  then show ?thesis by (simp add: new_request_invalid is_valid_def)
qed

text \<open>
  C36: a request whose status line is longer than the 1024 bytes of one read is answered 400, however
  the read splits it and whatever the router would do with it.
\<close>

theorem long_status_line_400:
  assumes "status_line_ok m u d1 d2" "max_length < length (status_line m u d1 d2)"
    and "prefix bytes (status_line m u d1 d2 @ rest)" "length bytes \<le> max_length"
  shows "\<exists>s'. handle_read route beyond False (length bytes) (receive bytes s, sh) = (Inr (), (s', sh)) \<and>
    read_response (last (sent s')) =
      Some (''HTTP/1.1 400 Bad Request'', [(''Content-Type'', ''text/plain'')], c_string (bytes @ beyond))"
proof -
  have inv: "\<not> is_valid (new_request bytes beyond)"
    by (rule cut_status_line_invalid [OF assms(1,3)]) (use assms(2,4) in linarith)
  have "get_raw_request (new_request bytes beyond) = bytes @ beyond"
    by (cases rule: new_request_cases [of bytes]) (simp_all add: new_request_ok new_request_invalid get_raw_request_def)
  then show ?thesis
    by (simp add: handle_read_invalid [OF inv] handle_invalid_request_def session_write_def invalid_response_def
        read_plain status_texts)
qed

theorem long_status_line_400_witness:
  "\<exists>s'. handle_read (\<lambda>req sh. (Inl (Exit 1), sh)) [] False 1024
      (receive (take 1024 (status_line ''GET'' (replicate 2000 (CHR ''/'')) (CHR ''1'') (CHR ''1''))) sample_start, (new_recorder, 0 :: nat)) =
    (Inr (), (s', (new_recorder, 0)))"
proof -
  let ?l = "status_line ''GET'' (replicate 2000 (CHR ''/'')) (CHR ''1'') (CHR ''1'')"
  have len: "length ?l = 2015" by (simp add: status_line_def)
  have "status_line_ok ''GET'' (replicate 2000 (CHR ''/'')) (CHR ''1'') (CHR ''1'')"
    by (simp add: status_line_ok_def list_all_iff char_class_simps)
  from long_status_line_400 [OF this, of "take 1024 ?l" "[]" "\<lambda>req sh. (Inl (Exit 1), sh)" "[]" sample_start "(new_recorder, 0)"]
  show ?thesis by (auto simp: len max_length_def take_is_prefix)
qed

text \<open>
  C2: a valid request whose URI is routed to the echo handler, read whole, is answered with 200, and is
  recorded with that status. What comes back is the request read as a C string, from the copy that has
  no terminating NUL: up to its first NUL when it has one, and otherwise the whole request, byte for
  byte, followed by what the memory behind the copy holds up to a NUL there. So the request comes back
  and nothing else exactly when it has no NUL and that memory starts with one. The target has no query
  behind a path of more than 15 characters; nothing is defined for such a request.
\<close>

theorem echo_end_to_end:
  assumes "router_ok r" "headers r = um_empty"
    and "um_find (route_map r) (longest_prefix_match r (fst (cut_query u))) = Some ''echo''"
    and "status_line_ok m u d1 d2" "\<not> long_query u" and data: "data = status_line m u d1 d2 @ rest"
  shows "\<exists>s' body. handle_read (route_request env r) mem False (length data) (receive data s, (rec, w)) =
      (Inr (), (s', (request_recorder (fst (cut_query u)) 200 rec, w))) \<and>
    read_response (last (sent s')) = Some (''HTTP/1.1 200 OK'', [(''Content-Type'', ''text/plain'')], body) \<and>
    body = (if NUL \<in> set data then takeWhile (\<lambda>c. c \<noteq> NUL) data else data @ takeWhile (\<lambda>c. c \<noteq> NUL) mem) \<and>
    (body = data \<longleftrightarrow> NUL \<notin> set data \<and> (mem = [] \<or> hd mem = NUL))"
proof -
  let ?req = "new_request data mem"
  define body where "body = (if NUL \<in> set data then takeWhile (\<lambda>c. c \<noteq> NUL) data else data @ takeWhile (\<lambda>c. c \<noteq> NUL) mem)"
  have c: "c_string (data @ mem) = body"
    by (auto simp: c_string_def body_def takeWhile_append)
  have same: "body = data \<longleftrightarrow> NUL \<notin> set data \<and> (mem = [] \<or> hd mem = NUL)"
    by (cases mem) (auto simp: body_def takeWhile_eq_all_conv)
  have out: "echo_handle_request ?req = set_header ''Content-Type'' ''text/plain'' (new_response 200 body)"
    by (simp add: handler_defs new_request_ok [OF assms(4) data] request_getters c)
  have "get_handler_config r n = Inr (map_of (rev (handler_blocks (config_of r))) n)" for n
    using assms(1) by (simp add: router_ok_def get_handler_config_eq)
  moreover have "get_route_handler r (longest_prefix_match r (fst (cut_query u))) = Inr ''echo''"
    using assms(3) by (simp add: get_route_handler_def)
  ultimately have "select_handler env r (fst (cut_query u)) w = (Inr Echo_handler, w)"
    by (simp add: select_handler_def Let_def)
  from served_by [OF assms(4) data assms(5,2) this, of rec mem "echo_handle_request ?req" w s] same
  show ?thesis unfolding body_def [symmetric] by (auto simp: out read_plain status_texts handler_simps)
qed

theorem echo_end_to_end_witness:
  "\<exists>s'. handle_read (route_request sample_env sample_router) ''x'' False
      (length (status_line ''GET'' ''/echo'' (CHR ''1'') (CHR ''1'') @ CRLF))
      (receive (status_line ''GET'' ''/echo'' (CHR ''1'') (CHR ''1'') @ CRLF) sample_start, (new_recorder, 0)) =
    (Inr (), (s', (request_recorder ''/echo'' 200 new_recorder, 0))) \<and>
    read_response (last (sent s')) = Some (''HTTP/1.1 200 OK'', [(''Content-Type'', ''text/plain'')],
      status_line ''GET'' ''/echo'' (CHR ''1'') (CHR ''1'') @ CRLF @ ''x'')"
proof -
  note r = sample_router_ok
  have h: "headers sample_router = um_empty" by code_simp
  have m: "um_find (route_map sample_router) (longest_prefix_match sample_router (fst (cut_query ''/echo''))) = Some ''echo''"
    by code_simp
  have ok: "status_line_ok ''GET'' ''/echo'' (CHR ''1'') (CHR ''1'')" "\<not> long_query ''/echo''" by code_simp+
  have n: "NUL \<notin> set (status_line ''GET'' ''/echo'' (CHR ''1'') (CHR ''1'') @ CRLF)" by code_simp
  have "takeWhile (\<lambda>c. c \<noteq> NUL) ''x'' = ''x''" by code_simp
  moreover have "fst (cut_query ''/echo'') = ''/echo''" by code_simp
  ultimately show ?thesis
    using echo_end_to_end [OF r h m ok refl, of sample_env "''x''" CRLF sample_start new_recorder 0] n by auto
qed

end
