(* ===== verification/Server.thy ===== *)
theory Server
  imports Session_Props Config_Statements
begin

text \<open>
  \<open>src/server.cc\<close> and \<open>src/server_main.cc\<close>: the server that accepts connections and starts a session
  for each, and the main program that reads the configuration file and runs it.

  Sessions are numbered in the order of their allocation; \<open>accepts\<close> lists the sessions given to an
  \<open>async_accept\<close> whose callback has not run. \<open>create_router\<close> writes the global recorder. Constructing
  the acceptor opens the port, which may throw; whether it does is a parameter of \<open>main_setup\<close>.

  The callbacks of all sessions on the threads of \<open>run\<close> are in \<open>Concurrent_Server\<close>. What holds of the
  program until then is in \<open>Server_Props\<close>.
\<close>

record server =
  srv_config :: config
  is_running :: bool
  thread_count :: "32 word"
  endpoint_port :: "16 word"
  srv_router :: "router option"
  sessions :: "session list"
  accepts :: "nat list"

text \<open>The \<open>short\<close> argument becomes the \<open>unsigned short\<close> of the endpoint.\<close>

definition new_server :: "config \<Rightarrow> 16 word \<Rightarrow> 32 word \<Rightarrow> server" where
  "new_server conf port_arg threads =
     \<lparr>srv_config = conf, is_running = False, thread_count = threads, endpoint_port = port_arg,
      srv_router = None, sessions = [], accepts = []\<rparr>"

fun find_router_block :: "config \<Rightarrow> config option \<Rightarrow> config option result" where
  "find_router_block [] output = Inr output"
| "find_router_block (st # sts) output =
     (case child_block st of
        None \<Rightarrow> find_router_block sts output
      | Some b \<Rightarrow> bind_res (vec_at (tokens st) 0) (\<lambda>t0.
          find_router_block sts (if t0 = ''router'' then Some b else output)))"

definition create_router ::
    "string \<Rightarrow> server \<times> server_status_recorder \<Rightarrow> (bool \<times> server \<times> server_status_recorder) result" where
  "create_router root_path s = (case s of (srv, rec) \<Rightarrow>
     bind_res (find_router_block (srv_config srv) None) (\<lambda>output.
       case output of
         None \<Rightarrow> Inr (False, srv, rec)
       | Some b \<Rightarrow> bind_res (register_routes_from_config (new_router b root_path, rec)) (\<lambda>(r, rec').
           Inr (True, srv\<lparr>srv_router := Some r\<rparr>, rec'))))"

text \<open>\<open>mem\<close> is what the buffer of the new session holds.\<close>

definition start_accept :: "string \<Rightarrow> server \<Rightarrow> bool \<times> server" where
  "start_accept mem srv =
     (if srv_router srv \<noteq> None
      then (True, srv\<lparr>sessions := sessions srv @ [new_session mem], accepts := accepts srv @ [length (sessions srv)],
              is_running := True\<rparr>)
      else (False, srv\<lparr>is_running := False\<rparr>))"

definition get_status :: "server \<Rightarrow> bool" where
  "get_status srv = is_running srv"

definition delete_session :: "session \<Rightarrow> session" where
  "delete_session s = s\<lparr>deletions := deletions s + 1\<rparr>"

definition handle_accept :: "nat \<Rightarrow> bool \<Rightarrow> string option \<Rightarrow> string \<Rightarrow> server \<Rightarrow> server" where
  "handle_accept i error remote mem srv =
     snd (start_accept mem (srv\<lparr>sessions := (sessions srv)[i :=
       (if \<not> error then session_start remote (sessions srv ! i) else delete_session (sessions srv ! i))]\<rparr>))"

text \<open>Following a null router pointer is undefined.\<close>

definition server_register_route ::
    "string \<Rightarrow> string \<Rightarrow> server \<times> server_status_recorder \<Rightarrow> (server \<times> server_status_recorder) result" where
  "server_register_route u handler_name s = (case srv_router (fst s) of
       None \<Rightarrow> Inl Undefined
     | Some r \<Rightarrow> (case register_route u handler_name (r, snd s) of (r', rec') \<Rightarrow>
         Inr ((fst s)\<lparr>srv_router := Some r'\<rparr>, rec')))"

definition server_register_default_header :: "string \<Rightarrow> string \<Rightarrow> server \<Rightarrow> server result" where
  "server_register_default_header header_name header_value srv = (case srv_router srv of
       None \<Rightarrow> Inl Undefined
     | Some r \<Rightarrow> Inr (srv\<lparr>srv_router := Some (register_default_header header_name header_value r)\<rparr>))"

subsection \<open>The main program\<close>

text \<open>
  How \<open>main\<close> ends, or the server it runs: \<open>Returned\<close> with the status of the process, or \<open>Running\<close>.
  The return value of \<open>Parse\<close> is not looked at, and every exception is caught, after which the
  program returns 0.
\<close>

datatype main_outcome = Returned int | Running server server_status_recorder

definition main_setup :: "file_system \<Rightarrow> bool \<Rightarrow> string \<Rightarrow> string list \<Rightarrow> main_outcome result" where
  "main_setup fs port_free mem argv =
     (if length argv \<noteq> 2 then Inr (Returned 1)
      else bind_res (Parse_file fs (argv ! 1) []) (\<lambda>(parsed, sts).
        let (ok, conf) = ParseStatements (new_config sts)
        in if \<not> ok then Inr (Returned 1)
           else bind_res (GetPort conf) (\<lambda>p.
             if \<not> port_free then Inr (Returned 0)
             else bind_res (create_router (GetServerRoot conf)
                    (new_server (statements conf) (word_of_int p) (GetThreadCount conf), new_recorder))
               (\<lambda>(r, srv, rec).
                 if r then (let (started, srv') = start_accept mem srv
                       in if started then Inr (Running srv' rec) else Inr (Returned 0))
                 else Inr (Returned 0)))))"

text \<open>The handler of \<open>SIGINT\<close> and \<open>SIGTERM\<close>.\<close>

definition signal_handler :: "bool \<Rightarrow> unit result" where
  "signal_handler error = (if \<not> error then Inl (Exit 1) else Inr ())"

text \<open>A session that is not started has nothing outstanding.\<close>

definition fresh_session :: "session \<Rightarrow> bool" where
  "fresh_session s \<longleftrightarrow> reads s = 0 \<and> writes s = 0 \<and> sent s = [] \<and> deletions s = 0"

lemma new_session_fresh [simp]: "fresh_session (new_session mem)"
  by (simp add: fresh_session_def session_simps)

end
