(* ===== verification/Server_Props.thy ===== *)
theory Server_Props
  imports Server
begin

text \<open>
  The properties of the main program: whatever the text of the configuration file, a server that starts
  has a port in range, a positive thread count and a router in which a handler can be selected for every
  URI not routed to a malformed proxy block; and how the program ends otherwise.
\<close>

subsection \<open>Starting\<close>

lemma find_router_block_ok:
  "list_all has_tokens sts \<Longrightarrow> (\<And>b. out = Some b \<Longrightarrow> list_all has_tokens b) \<Longrightarrow>
     \<exists>res. find_router_block sts out = Inr res \<and> (\<forall>b. res = Some b \<longrightarrow> list_all has_tokens b)"
proof (induction sts out rule: find_router_block.induct)
  case (2 st sts out)
  show ?case
  proof (cases "child_block st")
    case None
    with 2 show ?thesis by simp
  next
    case (Some b)
    obtain t ts where t: "tokens st = t # ts" using 2(3) by (auto simp: has_tokens_iff neq_Nil_conv)
    have "list_all has_tokens b" using 2(3) Some has_tokens_block [of st b] by simp
    then show ?thesis using 2(2) [OF Some, of t] 2(3,4) Some t by (cases "t = ''router''") simp_all
  qed
qed simp

lemma register_result:
  "register_routes_from_config (new_router b root_path, new_recorder) =
     (if routes_ok b then Inr (register_all (config_routes b) (new_router b root_path, new_recorder)) else Inl Undefined)"
  by (simp add: register_routes_from_config_def register_statements_eq)

lemma registered_prefixes:
  "mset (prefix_handler_list (snd (register_all rs (new_router b root_path, new_recorder)))) =
     mset (route_map (fst (register_all rs (new_router b root_path, new_recorder))))"
  using register_all_facts [of rs "(new_router b root_path, new_recorder)"]
  by (simp add: new_recorder_def um_empty_def)

lemma Parse_file_total:
  "\<exists>ok c. Parse_file fs name [] = Inr (ok, c) \<and> list_all has_tokens c \<and>
     (c \<noteq> [] \<longrightarrow> (\<exists>input. fs name = Some input \<and> Parse input [] = Inr (ok, c)))"
  using Parse_total by (auto simp: Parse_file_def split: option.split) metis

lemma port_word: "1 \<le> p \<Longrightarrow> p \<le> 65535 \<Longrightarrow> uint (word_of_int p :: 16 word) = p"
  by (simp add: unsigned_of_int take_bit_int_eq_self)

text \<open>All outcomes of \<open>main\<close> at once.\<close>

lemma main_setup_cases:
  assumes "length argv = 2"
  obtains (no_port) "main_setup fs port_free mem argv = Inr (Returned 1)"
  | (no_start) "main_setup fs port_free mem argv = Inr (Returned 0)"
  | (bad_location) input ok c b where "fs (argv ! 1) = Some input" "Parse input [] = Inr (ok, c)"
      "find_router_block c None = Inr (Some b)" "\<not> routes_ok b" "main_setup fs port_free mem argv = Inl Undefined"
  | (running) input ok c b conf p s where "fs (argv ! 1) = Some input" "Parse input [] = Inr (ok, c)"
      "ParseStatements (new_config c) = (True, conf)" "GetPort conf = Inr p" "1 \<le> p" "p \<le> 65535"
      "0 < GetThreadCount conf" "find_router_block c None = Inr (Some b)" "list_all has_tokens b"
      "register_routes_from_config (new_router b (GetServerRoot conf), new_recorder) = Inr s" "port_free"
      "main_setup fs port_free mem argv = Inr (Running (snd (start_accept mem
         ((new_server c (word_of_int p) (GetThreadCount conf))\<lparr>srv_router := Some (fst s)\<rparr>))) (snd s))"
proof -
  obtain ok c where parse: "Parse_file fs (argv ! 1) [] = Inr (ok, c)" and toks: "list_all has_tokens c"
    and input: "c \<noteq> [] \<longrightarrow> (\<exists>input. fs (argv ! 1) = Some input \<and> Parse input [] = Inr (ok, c))"
    using Parse_file_total by blast
  obtain found conf where ps: "ParseStatements (new_config c) = (found, conf)" by (cases "ParseStatements (new_config c)")
  note safe = ParseStatements_inv [OF ps]
  have stm: "statements conf = c" using safe by (simp add: new_config_def)
  show thesis
  proof (cases found)
    case False
    then show thesis using assms parse ps no_port by (simp add: main_setup_def Let_def)
  next
    case True
    then obtain p where p: "GetPort conf = Inr p" "1 \<le> p" "p \<le> 65535" using safe by blast
    show thesis
    proof (cases port_free)
      case False
      then show thesis using assms parse ps True p no_start by (simp add: main_setup_def Let_def)
    next
      case free: True
      obtain res where res: "find_router_block c None = Inr res" "\<And>b. res = Some b \<Longrightarrow> list_all has_tokens b"
        using find_router_block_ok [OF toks, of None] by auto
      show thesis
      proof (cases res)
        case None
        then show thesis using assms parse ps True p free res stm no_start
          by (simp add: main_setup_def create_router_def new_server_def Let_def)
      next
        case (Some b)
        then have "c \<noteq> []" using res(1) by auto
        then obtain input where t: "fs (argv ! 1) = Some input" "Parse input [] = Inr (ok, c)" using input by blast
        show thesis
        proof (cases "routes_ok b")
          case False
          then show thesis using assms parse ps True p free res stm Some t bad_location
            by (simp add: main_setup_def create_router_def new_server_def register_result Let_def)
        next
          case ok_b: True
          define s where "s = register_all (config_routes b) (new_router b (GetServerRoot conf), new_recorder)"
          then have reg: "register_routes_from_config (new_router b (GetServerRoot conf), new_recorder) = Inr s"
            using ok_b by (simp add: register_result)
          then have run: "main_setup fs port_free mem argv = Inr (Running (snd (start_accept mem
              ((new_server c (word_of_int p) (GetThreadCount conf))\<lparr>srv_router := Some (fst s)\<rparr>))) (snd s))"
            using assms parse ps True p free res stm Some
            by (cases s) (simp add: main_setup_def create_router_def new_server_def start_accept_def Let_def)
          have "ParseStatements (new_config c) = (True, conf)" "0 < GetThreadCount conf"
            "find_router_block c None = Inr (Some b)" "list_all has_tokens b"
            using ps True safe res Some by simp_all
          note facts = t this(1) p this(2-4) reg free run
          show thesis by (rule running) (rule facts)+
        qed
      qed
    qed
  qed
qed

lemma running_router:
  assumes "main_setup fs port_free mem argv = Inr (Running srv rec)" "srv_router srv = Some r"
  shows "router_ok r \<and> headers r = um_empty"
proof -
  have two: "length argv = 2" using assms by (simp add: main_setup_def split: if_splits)
  from two show ?thesis
  proof (cases rule: main_setup_cases [of argv fs port_free mem])
    case (running input ok c b conf p s)
    obtain r' rec' where s: "s = (r', rec')" by (cases s)
    have r: "r = r'" using assms running(12) s by (auto simp: start_accept_def)
    have "headers r' = um_empty"
      using running(10) register_all_facts [of "config_routes b" "(new_router b (GetServerRoot conf), new_recorder)"]
      by (auto simp: register_result s split: if_splits)
    then show ?thesis using register_config_router_ok running(9,10) s r by blast
  qed (use assms in auto)
qed

text \<open>The router of a running server has every location of its configuration as a route.\<close>

lemma running_routes:
  assumes "main_setup fs port_free mem argv = Inr (Running srv rec)" "srv_router srv = Some r"
  shows "um_find (route_map r) u = map_of (config_routes (config_of r)) u"
proof -
  have two: "length argv = 2" using assms by (simp add: main_setup_def split: if_splits)
  from two show ?thesis
  proof (cases rule: main_setup_cases [of argv fs port_free mem])
    case (running input ok c b conf p s)
    then have "register_routes_from_config (new_router b (GetServerRoot conf), new_recorder) = Inr (r, snd s)"
      using assms by (cases s) (auto simp: start_accept_def)
    from register_config_find [OF this] show ?thesis by simp
  qed (use assms in auto)
qed

text \<open>
  C1: whatever the configuration file contains, a server that starts listens on the port the file
  gives, from 1 to 65535, has at least one thread, and has a router in which a handler can be
  selected for every URI (unless it is routed to a proxy whose block is malformed) and whose routes are exactly the prefixes recorded for the status page; one
  accept is outstanding.
\<close>

theorem running_server_ok:
  assumes "main_setup fs port_free mem argv = Inr (Running srv rec)"
  shows "1 \<le> uint (endpoint_port srv) \<and> 0 < thread_count srv \<and> get_status srv \<and> accepts srv = [0] \<and>
    (\<exists>r. srv_router srv = Some r \<and>
      (\<forall>u w. returns (fst (select_handler env r u w)) \<or>
        (get_route_handler r (longest_prefix_match r u) = Inr ''proxy'' \<and> \<not> proxy_block_ok r)) \<and>
      mset (prefix_handler_list rec) = mset (route_map r)) \<and>
    (\<exists>conf sts. ParseStatements (new_config sts) = (True, conf) \<and> statements conf = srv_config srv \<and>
      GetPort conf = Inr (uint (endpoint_port srv)) \<and> GetThreadCount conf = thread_count srv)"
proof -
  have two: "length argv = 2" using assms by (simp add: main_setup_def split: if_splits)
  from two show ?thesis
  proof (cases rule: main_setup_cases [of argv fs port_free mem])
    case (running input ok c b conf p s)
    obtain r rec' where s: "s = (r, rec')" by (cases s)
    have srv: "srv = snd (start_accept mem ((new_server c (word_of_int p) (GetThreadCount conf))\<lparr>srv_router := Some r\<rparr>))"
      "rec = rec'" using assms running(12) s by simp_all
    have port: "uint (word_of_int p :: 16 word) = p" using running(5,6) by (rule port_word)
    have "router_ok r" using register_config_router_ok running(9,10) s by blast
    note select_handler_cases [OF this]
    then have "returns (fst (select_handler env r u w)) \<or>
        (get_route_handler r (longest_prefix_match r u) = Inr ''proxy'' \<and> \<not> proxy_block_ok r)" for u w
      by (force simp: returns_def split: sum.splits)
    moreover have "mset (prefix_handler_list rec') = mset (route_map r)"
      using running(10) registered_prefixes s by (auto simp: register_result split: if_splits) (metis fst_conv snd_conv)
    moreover have "statements conf = c" using ParseStatements_inv [OF running(3)] by (simp add: new_config_def)
    ultimately show ?thesis
      using running(3-7) port
      by (auto simp: srv start_accept_def new_server_def get_status_def)
  qed (use assms in auto)
qed

definition sample_main_text :: string where
  "sample_main_text = ''port 80; threadCount 2; router { handler echo { location /echo; } }'' @ [LF]"

definition sample_main_fs :: file_system where
  "sample_main_fs = (\<lambda>p. if p = ''conf'' then Some sample_main_text else None)"

definition outcome_server :: "main_outcome result \<Rightarrow> server option" where
  "outcome_server res = (case res of Inr (Running srv rec) \<Rightarrow> Some srv | _ \<Rightarrow> None)"

lemma outcome_server_Some: "outcome_server res = Some srv \<Longrightarrow> \<exists>rec. res = Inr (Running srv rec)"
  by (auto simp: outcome_server_def split: sum.splits main_outcome.splits)

theorem running_server_ok_witness:
  "1 \<le> uint (endpoint_port (the (outcome_server (main_setup sample_main_fs True [] [''prog'', ''conf'']))))"
proof -
  have "map_option endpoint_port (outcome_server (main_setup sample_main_fs True [] [''prog'', ''conf''])) = Some 80"
    by code_simp
  then obtain srv where srv: "outcome_server (main_setup sample_main_fs True [] [''prog'', ''conf'']) = Some srv" by auto
  then obtain rec where "main_setup sample_main_fs True [] [''prog'', ''conf''] = Inr (Running srv rec)"
    using outcome_server_Some by blast
  from running_server_ok [OF this, of sample_env] srv show ?thesis by simp
qed

text \<open>
  C34: starting the program is undefined only when the router block has a \<open>location\<close> without a URI
  in one of its handler blocks; in every other case it returns 1, returns 0 or runs.
\<close>

theorem main_setup_undefined:
  assumes "main_setup fs port_free mem argv = Inl f"
  shows "f = Undefined \<and> (\<exists>input ok c b. fs (argv ! 1) = Some input \<and> Parse input [] = Inr (ok, c) \<and>
    find_router_block c None = Inr (Some b) \<and> \<not> routes_ok b)"
proof -
  have two: "length argv = 2" using assms by (simp add: main_setup_def split: if_splits)
  from two show ?thesis
    by (cases rule: main_setup_cases [of argv fs port_free mem]) (use assms in auto)
qed

definition bad_location_text :: string where
  "bad_location_text = ''port 80; router { handler echo { location; } }'' @ [LF]"

theorem main_setup_undefined_witness:
  "(Inl Undefined :: main_outcome result) = Inl Undefined \<and>
   (\<exists>input ok c b. Parse input [] = Inr (ok, c) \<and> find_router_block c None = Inr (Some b) \<and> \<not> routes_ok b)"
proof -
  let ?fs = "\<lambda>p. if p = ''conf'' then Some bad_location_text else None"
  have "map_sum id (\<lambda>_. ()) (main_setup ?fs True [] [''prog'', ''conf'']) = Inl Undefined" by code_simp
  then have "main_setup ?fs True [] [''prog'', ''conf''] = Inl Undefined"
    by (cases "main_setup ?fs True [] [''prog'', ''conf'']") auto
  from main_setup_undefined [OF this] show ?thesis by blast
qed

definition rejected_text :: string where
  "rejected_text = ''port 80; router { handler echo { location /echo; } } }'' @ [LF]"

text \<open>
  A file the parser rejects can still be served: \<open>main\<close> does not look at what \<open>Parse\<close> returns,
  and the statements read before the error are enough.
\<close>

theorem main_serves_rejected_config:
  "map_sum id fst (Parse rejected_text []) = Inr False \<and>
   outcome_server (main_setup (\<lambda>p. if p = ''conf'' then Some rejected_text else None) True [] [''prog'', ''conf'']) \<noteq> None"
proof
  show "map_sum id fst (Parse rejected_text []) = Inr False" by code_simp
  have "map_option endpoint_port
      (outcome_server (main_setup (\<lambda>p. if p = ''conf'' then Some rejected_text else None) True [] [''prog'', ''conf''])) = Some 80"
    by code_simp
  then show "outcome_server (main_setup (\<lambda>p. if p = ''conf'' then Some rejected_text else None) True [] [''prog'', ''conf'']) \<noteq> None"
    by auto
qed

end
