(* ===== verification/Meme_Store.thy ===== *)
theory Meme_Store
  imports Meme_Props
begin

text \<open>
  What the meme handler needs of SQLite, and what \<open>sql_lib.cc\<close> makes of it.

  \<open>meme_table sq rows\<close> states the documented behaviour of SQLite for the statements that the handler
  makes: \<open>rows\<close> reads the rows of the table out of a database, in the order of their insertion; a
  statement with bound texts does to them what its text says, the primary key rejecting a second row
  with the same identifier, and a selection without an order gives its rows in any order. It is the
  behaviour of statements that are executed: a database that is locked by another connection or cannot be
  read or written is outside the contract, and so of the properties that assume it. Which rows
  a search matches is left open. \<open>list_sqlite\<close> of \<open>Meme_Map\<close> is an instance.

  The lemmas: the statements that the handler makes are the ones of the contract, and what each
  operation of \<open>sql_lib.cc\<close> does to the rows.
\<close>

subsection \<open>The statements\<close>

definition sql_create :: string where
  "sql_create = ''CREATE TABLE IF NOT EXISTS meme_table(id TEXT PRIMARY KEY NOT NULL,img_path TEXT NOT NULL,top_caption TEXT NOT NULL,bot_caption TEXT NOT NULL,times_viewed TEXT NOT NULL);''"

definition sql_insert :: string where
  "sql_insert = ''INSERT INTO meme_table(id,img_path,top_caption,bot_caption,times_viewed) VALUES(?1,?2,?3,?4,?5);''"

definition sql_update :: string where
  "sql_update = ''UPDATE meme_table SET img_path= ?1,top_caption= ?2,bot_caption= ?3 WHERE id= ?4;''"

definition sql_viewed :: string where
  "sql_viewed = ''UPDATE meme_table SET times_viewed= ?1 WHERE id= ?2;''"

definition sql_delete :: string where
  "sql_delete = ''DELETE FROM meme_table WHERE id= ?1;''"

definition sql_select :: string where
  "sql_select = ''SELECT * FROM meme_table WHERE id= ?1;''"

definition sql_all :: string where
  "sql_all = ''SELECT * FROM meme_table ''"

definition sql_search :: string where
  "sql_search = ''SELECT * FROM meme_table WHERE top_caption LIKE '%' || ?1|| '' @ [SQUOTE] @ ''%'' @ [SQUOTE] @ '' OR bot_caption LIKE '%' || ?2|| '' @ [SQUOTE] @ ''%'' @ [SQUOTE] @ '';''"

lemma c_string_id: "NUL \<notin> set s \<Longrightarrow> c_string s = s"
  by (auto simp: c_string_def takeWhile_eq_all_conv)

lemma digits_upto_5 [simp]:
  "to_dec 1 = ''1''" "to_dec (Suc 0) = ''1''" "to_dec (Suc (Suc 0)) = ''2''" "to_dec (Suc (Suc (Suc 0))) = ''3''"
  "to_dec (Suc (Suc (Suc (Suc 0)))) = ''4''" "to_dec (Suc (Suc (Suc (Suc (Suc 0))))) = ''5''"
  by code_simp+

lemma field_names_nth [simp]:
  "field_names ! 0 = ''id''" "field_names ! Suc 0 = ''img_path''" "field_names ! 1 = ''img_path''"
  "field_names ! 2 = ''top_caption''" "field_names ! Suc (Suc 0) = ''top_caption''" "field_names ! 3 = ''bot_caption''" "field_names ! 4 = ''times_viewed''"
  by (simp_all add: field_names_def numeral_eq_Suc)

lemma statement_texts:
  "insert_text table_name [(''id'', i), (''img_path'', t), (''top_caption'', a), (''bot_caption'', b), (''times_viewed'', v)] = sql_insert"
  "update_text table_name [(''img_path'', t), (''top_caption'', a), (''bot_caption'', b)] [(''id'', i)] = sql_update"
  "update_text table_name [(''times_viewed'', v)] [(''id'', i)] = sql_viewed"
  "delete_text table_name [(''id'', i)] = sql_delete"
  "select_text table_name [(''id'', i)] = sql_select"
  "select_text table_name [] = sql_all"
  "search_text table_name [(''top_caption'', a), (''bot_caption'', b)] = sql_search"
  "create_table_text table_name [(''id'', ''TEXT PRIMARY KEY NOT NULL''), (''img_path'', ''TEXT NOT NULL''),
     (''top_caption'', ''TEXT NOT NULL''), (''bot_caption'', ''TEXT NOT NULL''), (''times_viewed'', ''TEXT NOT NULL'')] = sql_create"
  by (simp_all add: insert_text_def update_text_def delete_text_def select_text_def search_text_def create_table_text_def
      table_name_def equals_param_def like_param_def sql_insert_def sql_update_def sql_viewed_def sql_delete_def
      sql_select_def sql_all_def sql_search_def sql_create_def numeral_eq_Suc)

lemma statement_c_strings [simp]:
  "c_string sql_insert = sql_insert" "c_string sql_update = sql_update" "c_string sql_viewed = sql_viewed"
  "c_string sql_delete = sql_delete" "c_string sql_select = sql_select" "c_string sql_all = sql_all"
  "c_string sql_search = sql_search" "c_string sql_create = sql_create"
  by (rule c_string_id; code_simp)+

subsection \<open>The contract\<close>

definition meme_table :: "'db sqlite \<Rightarrow> ('db \<Rightarrow> string list list) \<Rightarrow> bool" where
  "meme_table sq rows \<longleftrightarrow>
     (\<forall>f db. rows (snd (sqlite_open sq f db)) = rows db) \<and>
     (\<forall>db. rows (snd (sqlite_exec sq sql_create db)) = rows db) \<and>
     (\<forall>i t a b v db. \<exists>code db'. sqlite_query sq sql_insert [i, t, a, b, v] db = (([], code), db') \<and>
        (if \<exists>r\<in>set (rows db). r ! 0 = i then code \<noteq> SQLITE_DONE \<and> rows db' = rows db
         else code = SQLITE_DONE \<and> rows db' = rows db @ [[i, t, a, b, v]])) \<and>
     (\<forall>t a b i db. \<exists>db'. sqlite_query sq sql_update [t, a, b, i] db = (([], SQLITE_DONE), db') \<and>
        rows db' = map (\<lambda>r. if r ! 0 = i then r[1 := t, 2 := a, 3 := b] else r) (rows db)) \<and>
     (\<forall>v i db. \<exists>db'. sqlite_query sq sql_viewed [v, i] db = (([], SQLITE_DONE), db') \<and>
        rows db' = map (\<lambda>r. if r ! 0 = i then r[4 := v] else r) (rows db)) \<and>
     (\<forall>i db. \<exists>db'. sqlite_query sq sql_delete [i] db = (([], SQLITE_DONE), db') \<and>
        rows db' = filter (\<lambda>r. r ! 0 \<noteq> i) (rows db)) \<and>
     (\<forall>i db. \<exists>out db'. sqlite_query sq sql_select [i] db = ((map (map Some) out, SQLITE_DONE), db') \<and>
        mset out = mset (filter (\<lambda>r. r ! 0 = i) (rows db)) \<and> rows db' = rows db) \<and>
     (\<forall>db. \<exists>out db'. sqlite_query sq sql_all [] db = ((map (map Some) out, SQLITE_DONE), db') \<and>
        mset out = mset (rows db) \<and> rows db' = rows db) \<and>
     (\<forall>a b db. \<exists>out db'. sqlite_query sq sql_search [a, b] db = ((map (map Some) out, SQLITE_DONE), db') \<and>
        mset out \<subseteq># mset (rows db) \<and> rows db' = rows db)"

lemma meme_tableD:
  assumes "meme_table sq rows"
  shows "\<forall>f db. rows (snd (sqlite_open sq f db)) = rows db"
    "\<forall>db. rows (snd (sqlite_exec sq sql_create db)) = rows db"
    "\<forall>i t a b v db. \<exists>code db'. sqlite_query sq sql_insert [i, t, a, b, v] db = (([], code), db') \<and>
        (if \<exists>r\<in>set (rows db). r ! 0 = i then code \<noteq> SQLITE_DONE \<and> rows db' = rows db
         else code = SQLITE_DONE \<and> rows db' = rows db @ [[i, t, a, b, v]])"
    "\<forall>t a b i db. \<exists>db'. sqlite_query sq sql_update [t, a, b, i] db = (([], SQLITE_DONE), db') \<and>
        rows db' = map (\<lambda>r. if r ! 0 = i then r[1 := t, 2 := a, 3 := b] else r) (rows db)"
    "\<forall>v i db. \<exists>db'. sqlite_query sq sql_viewed [v, i] db = (([], SQLITE_DONE), db') \<and>
        rows db' = map (\<lambda>r. if r ! 0 = i then r[4 := v] else r) (rows db)"
    "\<forall>i db. \<exists>db'. sqlite_query sq sql_delete [i] db = (([], SQLITE_DONE), db') \<and>
        rows db' = filter (\<lambda>r. r ! 0 \<noteq> i) (rows db)"
    "\<forall>i db. \<exists>out db'. sqlite_query sq sql_select [i] db = ((map (map Some) out, SQLITE_DONE), db') \<and>
        mset out = mset (filter (\<lambda>r. r ! 0 = i) (rows db)) \<and> rows db' = rows db"
    "\<forall>db. \<exists>out db'. sqlite_query sq sql_all [] db = ((map (map Some) out, SQLITE_DONE), db') \<and>
        mset out = mset (rows db) \<and> rows db' = rows db"
    "\<forall>a b db. \<exists>out db'. sqlite_query sq sql_search [a, b] db = ((map (map Some) out, SQLITE_DONE), db') \<and>
        mset out \<subseteq># mset (rows db) \<and> rows db' = rows db"
  by (insert assms [unfolded meme_table_def], elim conjE, assumption)+

text \<open>The records that the operations of \<open>sql_lib.cc\<close> make of it.\<close>

lemma fetch_some: "sqlite_query sq (c_string q) (map (c_string \<circ> snd) qp) db = ((map (map Some) out, code), db') \<Longrightarrow>
    fetch_rows sq q qp db = (Inr out, db')"
  by (simp add: fetch_rows_def comp_def list_all_iff)

lemma step_some: "sqlite_query sq (c_string q) (map (c_string \<circ> snd) qp) db = (([], code), db') \<Longrightarrow>
    step_done sq q qp db = (Inr (code = SQLITE_DONE), db')"
  by (simp add: step_done_def)

lemmas push_simps = push_def append.simps

lemma insert_row:
  assumes "meme_table sq rows" "NUL \<notin> set i" "NUL \<notin> set t" "NUL \<notin> set a" "NUL \<notin> set b"
  shows "\<exists>db'. insert_record sq table_name [(''id'', i), (''img_path'', t), (''top_caption'', a), (''bot_caption'', b),
      (''times_viewed'', ''0'')] db = (Inr (\<not> (\<exists>r\<in>set (rows db). r ! 0 = i)), db') \<and>
    rows db' = (if \<exists>r\<in>set (rows db). r ! 0 = i then rows db else rows db @ [[i, t, a, b, ''0'']])"
proof -
  obtain code db' where q: "sqlite_query sq sql_insert [i, t, a, b, ''0''] db = (([], code), db')"
    and r: "if \<exists>r\<in>set (rows db). r ! 0 = i then code \<noteq> SQLITE_DONE \<and> rows db' = rows db
         else code = SQLITE_DONE \<and> rows db' = rows db @ [[i, t, a, b, ''0'']]"
    using meme_tableD(3) [OF assms(1), rule_format, of i t a b "''0''" db] by blast
  have "c_string ''0'' = ''0''" by code_simp
  then show ?thesis
    using step_some [of sq sql_insert "[(''id'', i), (''img_path'', t), (''top_caption'', a), (''bot_caption'', b), (''times_viewed'', ''0'')]"]
      q r assms(2-5)
    by (auto simp: insert_record_def statement_texts c_string_id split: if_splits)
qed

lemma update_row:
  assumes "meme_table sq rows" "NUL \<notin> set i" "NUL \<notin> set t" "NUL \<notin> set a" "NUL \<notin> set b"
  shows "\<exists>db'. update_record sq table_name [(''img_path'', t), (''top_caption'', a), (''bot_caption'', b)] [(''id'', i)] db =
      (Inr True, db') \<and> rows db' = map (\<lambda>r. if r ! 0 = i then r[1 := t, 2 := a, 3 := b] else r) (rows db)"
proof -
  obtain db' where q: "sqlite_query sq sql_update [t, a, b, i] db = (([], SQLITE_DONE), db')"
    and r: "rows db' = map (\<lambda>r. if r ! 0 = i then r[1 := t, 2 := a, 3 := b] else r) (rows db)"
    using meme_tableD(4) [OF assms(1), rule_format, of t a b i db] by blast
  then show ?thesis
    using step_some [of sq sql_update "[(''img_path'', t), (''top_caption'', a), (''bot_caption'', b), (''id'', i)]"] assms(2-5)
    by (simp add: update_record_def statement_texts c_string_id)
qed

lemma viewed_row:
  assumes "meme_table sq rows" "NUL \<notin> set i" "NUL \<notin> set v"
  shows "\<exists>db'. update_record sq table_name [(''times_viewed'', v)] [(''id'', i)] db = (Inr True, db') \<and>
    rows db' = map (\<lambda>r. if r ! 0 = i then r[4 := v] else r) (rows db)"
proof -
  obtain db' where q: "sqlite_query sq sql_viewed [v, i] db = (([], SQLITE_DONE), db')"
    and r: "rows db' = map (\<lambda>r. if r ! 0 = i then r[4 := v] else r) (rows db)"
    using meme_tableD(5) [OF assms(1), rule_format, of v i db] by blast
  then show ?thesis
    using step_some [of sq sql_viewed "[(''times_viewed'', v), (''id'', i)]"] assms(2,3)
    by (simp add: update_record_def statement_texts c_string_id)
qed

lemma delete_row:
  assumes "meme_table sq rows" "NUL \<notin> set i"
  shows "\<exists>db'. delete_record sq table_name [(''id'', i)] db = (Inr True, db') \<and>
    rows db' = filter (\<lambda>r. r ! 0 \<noteq> i) (rows db)"
proof -
  obtain db' where q: "sqlite_query sq sql_delete [i] db = (([], SQLITE_DONE), db')"
    and r: "rows db' = filter (\<lambda>r. r ! 0 \<noteq> i) (rows db)"
    using meme_tableD(6) [OF assms(1), rule_format, of i db] by blast
  then show ?thesis
    using step_some [of sq sql_delete "[(''id'', i)]"] assms(2)
    by (simp add: delete_record_def statement_texts c_string_id)
qed

lemma select_rows:
  assumes "meme_table sq rows"
  shows "\<exists>out db'. select_record sq table_name [(''id'', i)] db = (Inr out, db') \<and>
    mset out = mset (filter (\<lambda>r. r ! 0 = c_string i) (rows db)) \<and> rows db' = rows db"
proof -
  obtain out db' where "sqlite_query sq sql_select [c_string i] db = ((map (map Some) out, SQLITE_DONE), db')"
    "mset out = mset (filter (\<lambda>r. r ! 0 = c_string i) (rows db))" "rows db' = rows db"
    using meme_tableD(7) [OF assms, rule_format, of "c_string i" db] by blast
  then show ?thesis
    using fetch_some [of sq sql_select "[(''id'', i)]"] by (simp add: select_record_def statement_texts)
qed

lemma all_rows:
  assumes "meme_table sq rows"
  shows "\<exists>out db'. select_record sq table_name [] db = (Inr out, db') \<and> mset out = mset (rows db) \<and> rows db' = rows db"
proof -
  obtain out db' where "sqlite_query sq sql_all [] db = ((map (map Some) out, SQLITE_DONE), db')"
    "mset out = mset (rows db)" "rows db' = rows db"
    using meme_tableD(8) [OF assms, rule_format, of db] by blast
  then show ?thesis using fetch_some [of sq sql_all "[]"] by (simp add: select_record_def statement_texts)
qed

lemma search_rows:
  assumes "meme_table sq rows"
  shows "\<exists>out db'. search_record sq table_name [(''top_caption'', a), (''bot_caption'', b)] db = (Inr out, db') \<and>
    mset out \<subseteq># mset (rows db) \<and> rows db' = rows db"
proof -
  obtain out db' where "sqlite_query sq sql_search [c_string a, c_string b] db = ((map (map Some) out, SQLITE_DONE), db')"
    "mset out \<subseteq># mset (rows db)" "rows db' = rows db"
    using meme_tableD(9) [OF assms, rule_format, of "c_string a" "c_string b" db] by blast
  then show ?thesis
    using fetch_some [of sq sql_search "[(''top_caption'', a), (''bot_caption'', b)]"]
    by (simp add: search_record_def statement_texts)
qed

end
