(* ===== verification/Meme_Map.thy ===== *)
theory Meme_Map
  imports Meme_Store
begin

text \<open>
  The meme handler refines a finite map from identifiers to documents.

  \<open>docs\<close> is the abstraction of the rows of the table and \<open>meme_map_step\<close> the abstract operation of a
  request. Under the contract of \<open>Meme_Store\<close> every request keeps the table well formed (one row per
  identifier, documents without empty or unsafe texts, counters that are numbers) and changes the map
  as the abstract operation says; a request for an identifier is answered from the map.
\<close>

subsection \<open>The table and the map\<close>

definition row_ok :: "string list \<Rightarrow> bool" where
  "row_ok r \<longleftrightarrow> length r = 5 \<and> NUL \<notin> set (r ! 0) \<and> caption_text (r ! 1) \<and> caption_text (r ! 2) \<and>
     caption_text (r ! 3) \<and> (\<exists>n. r ! 4 = to_dec n \<and> int n \<le> int_max)"

definition table_ok :: "string list list \<Rightarrow> bool" where
  "table_ok t \<longleftrightarrow> distinct (map (\<lambda>r. r ! 0) t) \<and> (\<forall>r\<in>set t. row_ok r)"

definition docs :: "string list list \<Rightarrow> string \<rightharpoonup> string list" where
  "docs t = map_of (map (\<lambda>r. (r ! 0, [r ! 1, r ! 2, r ! 3])) t)"

lemma docs_dom: "i \<in> dom (docs t) \<longleftrightarrow> (\<exists>r\<in>set t. r ! 0 = i)"
  unfolding docs_def dom_map_of_conv_image_fst by (force simp: image_iff)

lemma docs_Some: "docs t i = Some d \<Longrightarrow> \<exists>r\<in>set t. r ! 0 = i \<and> d = [r ! 1, r ! 2, r ! 3]"
  by (auto simp: docs_def dest!: map_of_SomeD)

lemma row_cases: "row_ok r \<Longrightarrow> \<exists>i t a b v. r = [i, t, a, b, v]"
  by (auto simp: row_ok_def length_Suc_conv numeral_eq_Suc)

lemma row_ok_five:
  "row_ok [i, t, a, b, v] \<longleftrightarrow> NUL \<notin> set i \<and> caption_text t \<and> caption_text a \<and> caption_text b \<and>
     (\<exists>n. v = to_dec n \<and> int n \<le> int_max)"
  by (simp add: row_ok_def numeral_eq_Suc)

lemma table_ok_Cons: "table_ok (r # t) \<longleftrightarrow> row_ok r \<and> (\<forall>q\<in>set t. q ! 0 \<noteq> r ! 0) \<and> table_ok t"
  unfolding table_ok_def by (auto simp: image_iff)

lemma table_ok_Nil [simp]: "table_ok []"
  by (simp add: table_ok_def)

lemma docs_Cons: "docs (r # t) = (docs t)(r ! 0 \<mapsto> [r ! 1, r ! 2, r ! 3])"
  by (simp add: docs_def)

lemma docs_Nil [simp]: "docs [] = Map.empty"
  by (simp add: docs_def)

subsection \<open>The statements on the map\<close>

lemma insert_ok:
  assumes "table_ok t" "row_ok [i, x, a, b, v]" "\<not> (\<exists>r\<in>set t. r ! 0 = i)"
  shows "table_ok (t @ [[i, x, a, b, v]]) \<and> docs (t @ [[i, x, a, b, v]]) = (docs t)(i \<mapsto> [x, a, b])"
  using assms
  by (induction t) (auto simp: table_ok_Cons docs_Cons fun_upd_twist)

lemma table_map_ok:
  assumes "table_ok t" "\<And>r. r \<in> set t \<Longrightarrow> row_ok (f r) \<and> f r ! 0 = r ! 0"
  shows "table_ok (map f t)"
  using assms by (induction t) (auto simp: table_ok_Cons)

lemma update_ok:
  assumes "table_ok t" "caption_text x" "caption_text a" "caption_text b"
  shows "table_ok (map (\<lambda>r. if r ! 0 = i then r[1 := x, 2 := a, 3 := b] else r) t)"
    and "docs (map (\<lambda>r. if r ! 0 = i then r[1 := x, 2 := a, 3 := b] else r) t) =
      (if i \<in> dom (docs t) then (docs t)(i \<mapsto> [x, a, b]) else docs t)"
proof -
  show "table_ok (map (\<lambda>r. if r ! 0 = i then r[1 := x, 2 := a, 3 := b] else r) t)"
    using assms by (intro table_map_ok) (auto simp: table_ok_def row_ok_def numeral_eq_Suc)
  show "docs (map (\<lambda>r. if r ! 0 = i then r[1 := x, 2 := a, 3 := b] else r) t) =
      (if i \<in> dom (docs t) then (docs t)(i \<mapsto> [x, a, b]) else docs t)"
    using assms(1)
  proof (induction t)
    case (Cons r t)
    obtain j y c d v where r: "r = [j, y, c, d, v]"
      using row_cases [of r] Cons.prems by (auto simp: table_ok_Cons)
    have "i \<notin> dom (docs t)" if "j = i" using Cons.prems that by (auto simp: table_ok_Cons docs_dom r)
    with Cons show ?case
      by (auto simp: table_ok_Cons docs_Cons r numeral_eq_Suc fun_upd_twist dom_def)
  qed simp
qed

lemma viewed_ok:
  assumes "table_ok t" "int n \<le> int_max"
  shows "table_ok (map (\<lambda>r. if r ! 0 = i then r[4 := to_dec n] else r) t)"
    and "docs (map (\<lambda>r. if r ! 0 = i then r[4 := to_dec n] else r) t) = docs t"
proof -
  show "table_ok (map (\<lambda>r. if r ! 0 = i then r[4 := to_dec n] else r) t)"
    using assms by (intro table_map_ok) (auto simp: table_ok_def row_ok_def numeral_eq_Suc)
  show "docs (map (\<lambda>r. if r ! 0 = i then r[4 := to_dec n] else r) t) = docs t"
    using assms(1) by (induction t) (auto simp: table_ok_Cons docs_Cons row_ok_def numeral_eq_Suc)
qed

lemma delete_ok:
  "table_ok t \<Longrightarrow> table_ok (filter (\<lambda>r. r ! 0 \<noteq> i) t) \<and> docs (filter (\<lambda>r. r ! 0 \<noteq> i) t) = (docs t)(i := None)"
  by (induction t) (auto simp: table_ok_Cons docs_Cons fun_upd_twist)

lemma filter_id:
  assumes "table_ok t"
  shows "(\<exists>r. filter (\<lambda>r. r ! 0 = i) t = [r] \<and> row_ok r \<and> r ! 0 = i \<and> docs t i = Some [r ! 1, r ! 2, r ! 3]) \<or>
    (filter (\<lambda>r. r ! 0 = i) t = [] \<and> docs t i = None)"
  using assms
proof (induction t)
  case (Cons r t)
  show ?case
  proof (cases "r ! 0 = i")
    case True
    then have "filter (\<lambda>q. q ! 0 = i) t = []" using Cons.prems by (auto simp: table_ok_Cons filter_empty_conv)
    then show ?thesis using True Cons.prems by (simp add: table_ok_Cons docs_Cons)
  next
    case False
    then show ?thesis using Cons by (auto simp: table_ok_Cons docs_Cons)
  qed
qed simp

subsection \<open>Identifiers\<close>

lemma uuid_chars:
  assumes "check_id i"
  shows "length i = 36" "\<forall>c\<in>set i. is_xdigit c \<or> c = CHR ''-''"
proof -
  obtain ps where ps: "uuid_parts ps" "i = uuid_text ps" using assms check_id_iff by blast
  then obtain p1 p2 p3 p4 p5 where p: "ps = [p1, p2, p3, p4, p5]"
    by (auto simp: uuid_parts_def map_eq_Cons_conv)
  then show "length i = 36" "\<forall>c\<in>set i. is_xdigit c \<or> c = CHR ''-''"
    using ps by (auto simp: uuid_parts_def uuid_text_def list_all_iff)
qed

lemma uuid_clean:
  assumes "check_id i"
  shows "NUL \<notin> set i" "CHR ''/'' \<notin> set i" "list_all not_newline i" "c_string i = i"
proof -
  have "\<not> (is_xdigit NUL \<or> NUL = CHR ''-'')" "\<not> (is_xdigit (CHR ''/'') \<or> CHR ''/'' = CHR ''-'')" by code_simp+
  then show n: "NUL \<notin> set i" "CHR ''/'' \<notin> set i" using uuid_chars(2) [OF assms] by blast+
  show "c_string i = i" using n(1) by (rule c_string_id)
  have "not_newline c" if "is_xdigit c \<or> c = CHR ''-''" for c
    using that by (auto simp: char_class_simps)
  then show "list_all not_newline i" using uuid_chars(2) [OF assms] by (auto simp: list_all_iff)
qed

lemma uuid_not_special:
  assumes "check_id i"
  shows "i \<noteq> ''create''" "i \<noteq> ''create/''" "i \<noteq> ''view''" "i \<noteq> ''view/''" "i \<noteq> ''''" "i \<noteq> ''/''"
    "take 7 i \<noteq> ''manage/''" "take 5 i \<noteq> ''view/''" "take 7 i \<noteq> ''search/''"
proof -
  have "CHR ''/'' \<notin> set (take n i)" for n using uuid_clean(2) [OF assms] in_set_takeD by metis
  from this [of 7] this [of 5]
  show "take 7 i \<noteq> ''manage/''" "take 5 i \<noteq> ''view/''" "take 7 i \<noteq> ''search/''" by auto
qed (use uuid_chars(1) [OF assms] in auto)

lemma check_uri_memes: "list_all not_newline x \<Longrightarrow> check_uri (''/memes/'' @ x) = x"
proof -
  assume x: "list_all not_newline x"
  have rel: "rx_rel meme_uri_rx True w rest caps \<longleftrightarrow>
      (\<exists>y. list_all not_newline y \<and> w = ''/memes/'' @ y \<and> rest = [] \<and> caps = [y])" for w rest caps
    by (auto simp: meme_uri_rx_def rx_rel_seq rx_rel_simps list_all_iff)
  have "\<exists>ms. rx_all meme_uri_rx True (''/memes/'' @ x) = (''/memes/'' @ x, [], [x]) # ms"
    by (rule rx_all_unique [where rest = "[]", simplified]) (use rel x in auto)
  then have "regex_search meme_uri_rx (''/memes/'' @ x) = Some ([], ''/memes/'' @ x, [], [x])"
    by (auto simp: regex_search_def intro: rx_search_at)
  moreover have "rx_groups meme_uri_rx = 1" by (simp add: meme_uri_rx_def)
  ultimately show "check_uri (''/memes/'' @ x) = x" by (simp add: check_uri_def Let_def)
qed

lemma caption_no_NUL: "caption_text w \<Longrightarrow> NUL \<notin> set w"
proof -
  assume "caption_text w"
  moreover have "\<not> caption_char NUL" by code_simp
  ultimately show ?thesis by (auto simp: caption_text_def list_all_iff)
qed

subsection \<open>Requests\<close>

text \<open>What a request does to the map, when \<open>new_id\<close> is the identifier that is drawn.\<close>

definition body_doc :: "request \<Rightarrow> string list option" where
  "body_doc req = (case body_check (Request.get_body req) of Inr (Some ps) \<Rightarrow> Some ps | _ \<Rightarrow> None)"

definition meme_map_step :: "request \<Rightarrow> string \<Rightarrow> (string \<rightharpoonup> string list) \<Rightarrow> (string \<rightharpoonup> string list)" where
  "meme_map_step req new_id m =
     (let i = check_uri (get_uri req)
      in if get_method req = ''POST'' then (if body_doc req \<noteq> None \<and> new_id \<notin> dom m then m(new_id := body_doc req) else m)
         else if get_method req = ''PUT''
         then (if body_doc req \<noteq> None \<and> check_id i \<and> i \<in> dom m then m(i := body_doc req) else m)
         else if get_method req = ''DELETE'' then (if check_id i then m(i := None) else m)
         else m)"

lemma body_doc_Some:
  "body_doc req = Some ps \<Longrightarrow> body_check (Request.get_body req) = Inr (Some ps) \<and>
     (\<exists>x a b. ps = [x, a, b] \<and> caption_text x \<and> caption_text a \<and> caption_text b)"
  using body_check_clean by (auto simp: body_doc_def split: sum.splits option.splits)

lemma body_doc_ok: "body_check (Request.get_body req) = Inr (Some ps) \<Longrightarrow> body_doc req \<noteq> None"
  by (simp add: body_doc_def)

text \<open>Well formed, and the map as the step says.\<close>

definition table_step :: "('db \<Rightarrow> string list list) \<Rightarrow> (string \<rightharpoonup> string list) \<Rightarrow> 'db \<Rightarrow> bool" where
  "table_step rows m db' \<longleftrightarrow> table_ok (rows db') \<and> docs (rows db') = m"

lemma create_step:
  assumes tab: "meme_table sq rows" "table_ok (rows db)" and gen: "gen db = (Inr new_id, db1)" "rows db1 = rows db" "check_id new_id"
    and ps: "body_doc req = Some ps"
  shows "\<exists>db'. create_meme sq gen req db =
      (Inr (if new_id \<in> dom (docs (rows db))
            then text_response 500 (''An error occurred while trying to create the provided meme!'' @ [LF])
            else id_response 201 new_id), db') \<and>
    table_step rows (if new_id \<in> dom (docs (rows db)) then docs (rows db) else (docs (rows db))(new_id \<mapsto> ps)) db' \<and>
    (new_id \<notin> dom (docs (rows db)) \<longrightarrow> rows db' = rows db @ [[new_id, ps ! 0, ps ! 1, ps ! 2, ''0'']])"
proof -
  obtain x a b where p: "ps = [x, a, b]" "caption_text x" "caption_text a" "caption_text b"
    and body: "body_check (Request.get_body req) = Inr (Some ps)" using body_doc_Some [OF ps] by blast
  obtain db' where ins: "insert_record sq table_name [(''id'', new_id), (''img_path'', x), (''top_caption'', a),
        (''bot_caption'', b), (''times_viewed'', ''0'')] db1 = (Inr (\<not> (\<exists>r\<in>set (rows db1). r ! 0 = new_id)), db')"
      "rows db' = (if \<exists>r\<in>set (rows db1). r ! 0 = new_id then rows db1 else rows db1 @ [[new_id, x, a, b, ''0'']])"
    using insert_row [OF tab(1), of new_id x a b db1] uuid_clean(1) [OF gen(3)] p(2-4) caption_no_NUL by blast
  have "to_dec 0 = ''0''" by code_simp
  then have "\<exists>n. ''0'' = to_dec n \<and> int n \<le> int_max" by (intro exI [of _ 0]) (simp add: int_max_def)
  then have row: "row_ok [new_id, x, a, b, ''0'']"
    using uuid_clean(1) [OF gen(3)] p by (simp add: row_ok_five)
  have gnm: "generate_new_meme sq gen ps db = (Inr (\<not> (\<exists>r\<in>set (rows db1). r ! 0 = new_id), new_id), db')"
    using gen(1) ins(1) by (simp add: generate_new_meme_def p(1) push_def numeral_2_eq_2 io_bind_def)
  have "create_meme sq gen req db =
      (Inr (if new_id \<in> dom (docs (rows db))
            then text_response 500 (''An error occurred while trying to create the provided meme!'' @ [LF])
            else id_response 201 new_id), db')"
    using gnm by (simp add: create_meme_def body docs_dom gen(2))
  moreover have "table_step rows (if new_id \<in> dom (docs (rows db)) then docs (rows db) else (docs (rows db))(new_id \<mapsto> ps)) db'"
    using insert_ok [OF tab(2) row] ins(2) tab(2) unfolding table_step_def docs_dom p(1) gen(2) by auto
  moreover have "new_id \<notin> dom (docs (rows db)) \<longrightarrow> rows db' = rows db @ [[new_id, ps ! 0, ps ! 1, ps ! 2, ''0'']]"
    using ins(2) unfolding docs_dom gen(2) by (simp add: p(1) numeral_2_eq_2)
  ultimately show ?thesis by blast
qed

lemma update_step:
  assumes tab: "meme_table sq rows" "table_ok (rows db)" and i: "check_id i" and ps: "body_doc req = Some ps"
  shows "\<exists>db'. update_meme sq i req db = (Inr (id_response 200 i), db') \<and>
    table_step rows (if i \<in> dom (docs (rows db)) then (docs (rows db))(i \<mapsto> ps) else docs (rows db)) db'"
proof -
  obtain x a b where p: "ps = [x, a, b]" "caption_text x" "caption_text a" "caption_text b"
    and body: "body_check (Request.get_body req) = Inr (Some ps)" using body_doc_Some [OF ps] by blast
  obtain db' where upd: "update_record sq table_name [(''img_path'', x), (''top_caption'', a), (''bot_caption'', b)] [(''id'', i)] db =
      (Inr True, db')" "rows db' = map (\<lambda>r. if r ! 0 = i then r[1 := x, 2 := a, 3 := b] else r) (rows db)"
    using update_row [OF tab(1), of i x a b db] uuid_clean(1) [OF i] p(2-4) caption_no_NUL by blast
  have "update_meme sq i req db = (Inr (id_response 200 i), db')"
    using upd(1) by (simp add: update_meme_def body i p(1) push_def numeral_2_eq_2)
  then show ?thesis using update_ok [OF tab(2) p(2-4), of i] by (auto simp: table_step_def upd(2) p(1))
qed

lemma delete_step:
  assumes tab: "meme_table sq rows" "table_ok (rows db)" and i: "check_id i"
  shows "\<exists>db'. delete_meme sq i req db = (Inr (id_response 200 i), db') \<and>
    table_step rows ((docs (rows db))(i := None)) db'"
proof -
  obtain db' where del: "delete_record sq table_name [(''id'', i)] db = (Inr True, db')"
    "rows db' = filter (\<lambda>r. r ! 0 \<noteq> i) (rows db)"
    using delete_row [OF tab(1), of i db] uuid_clean(1) [OF i] by blast
  then show ?thesis using delete_ok [OF tab(2), of i] by (auto simp: delete_meme_def i push_def table_step_def)
qed

lemma stoi_counter: "r ! 4 = to_dec n \<Longrightarrow> int n \<le> int_max \<Longrightarrow> stoi (r ! 4) = Inr (int n)"
  by (simp add: stoi_to_dec)

lemma view_read_step:
  assumes "meme_table sq rows" "table_ok (rows db)"
  obtains (none) db' where "view_read sq i db = (Inr [], db')" "rows db' = rows db" "docs (rows db) (c_string i) = None"
  | (one) r db' where "view_read sq i db = (Inr [r], db')" "rows db' = rows db" "r \<in> set (rows db)" "row_ok r"
      "r ! 0 = c_string i" "docs (rows db) (c_string i) = Some [r ! 1, r ! 2, r ! 3]"
proof -
  let ?i = "c_string i"
  obtain out db' where sel: "view_read sq i db = (Inr out, db')"
    and out: "mset out = mset (filter (\<lambda>r. r ! 0 = ?i) (rows db))" and same: "rows db' = rows db"
    using select_rows [OF assms(1)] unfolding view_read_def push_simps field_names_nth by blast
  consider (found) r where "filter (\<lambda>r. r ! 0 = ?i) (rows db) = [r]" "row_ok r" "r ! 0 = ?i"
      "docs (rows db) ?i = Some [r ! 1, r ! 2, r ! 3]"
    | (empty) "filter (\<lambda>r. r ! 0 = ?i) (rows db) = []" "docs (rows db) ?i = None"
    using filter_id [OF assms(2), of ?i] by (elim disjE exE conjE)
  then show thesis
  proof cases
    case empty
    then show thesis using none [of db'] sel out same by simp
  next
    case (found r)
    have "r \<in> set (rows db)" using arg_cong [OF found(1), of set] by auto
    then show thesis using one [of r db'] sel out same found by simp
  qed
qed

lemma view_write_step:
  assumes "meme_table sq rows" "row_ok r" "r ! 4 = to_dec n" "int n < int_max"
  shows "\<exists>db'. view_write sq [r] db = (Inr (json_response (meme_json (r ! 1) (r ! 2) (r ! 3))), db') \<and>
    rows db' = map (\<lambda>q. if q ! 0 = r ! 0 then q[4 := to_dec (Suc n)] else q) (rows db)"
proof -
  have stoi: "stoi (r ! 4) = Inr (int n)" using stoi_counter [OF assms(3)] assms(4) by simp
  have its: "int_to_string (int n + 1) = to_dec (Suc n)" by (simp add: int_to_string_def nat_add_distrib)
  have nul: "NUL \<notin> set (to_dec (Suc n))" using to_dec_digits [of NUL "Suc n"] by (auto simp: is_digit_def)
  have r: "length r = 5" "NUL \<notin> set (r ! 0)" "r ! 1 \<noteq> []" "r ! 2 \<noteq> []" "r ! 3 \<noteq> []"
    using assms(2) by (simp_all add: row_ok_def caption_text_def)
  obtain db' where "update_record sq table_name [(''times_viewed'', to_dec (Suc n))] [(''id'', r ! 0)] db = (Inr True, db')"
    "rows db' = map (\<lambda>q. if q ! 0 = r ! 0 then q[4 := to_dec (Suc n)] else q) (rows db)"
    using viewed_row [OF assms(1) r(2) nul] by blast
  then show ?thesis using r assms(4) by (simp add: view_write_def push_def Let_def stoi its)
qed

lemma view_write_full:
  assumes "row_ok r" "stoi (r ! 4) = Inr int_max"
  shows "view_write sq [r] db = (Inl Undefined, db)"
  using assms by (simp add: view_write_def row_ok_def Let_def)

text \<open>A counter at its end is not increased: the addition overflows, which is undefined.\<close>

definition counter_full :: "string list list \<Rightarrow> string \<Rightarrow> bool" where
  "counter_full t i \<longleftrightarrow> (\<exists>r\<in>set t. r ! 0 = i \<and> stoi (r ! 4) = Inr int_max)"

lemma one_row: "table_ok t \<Longrightarrow> q \<in> set t \<Longrightarrow> r \<in> set t \<Longrightarrow> q ! 0 = r ! 0 \<Longrightarrow> q = r"
  unfolding table_ok_def distinct_map inj_on_def by blast

lemma get_step:
  assumes tab: "meme_table sq rows" "table_ok (rows db)"
  shows "\<exists>res db'. get_meme_by_id sq i db = (res, db') \<and> table_step rows (docs (rows db)) db' \<and>
    (case docs (rows db) (c_string i) of
       None \<Rightarrow> res = Inr (text_response 404 (''The requested file could not be found!'' @ [LF])) \<and> rows db' = rows db
     | Some d \<Rightarrow> if counter_full (rows db) (c_string i) then res = Inl Undefined \<and> rows db' = rows db
         else res = Inr (json_response (meme_json (d ! 0) (d ! 1) (d ! 2))) \<and>
           (\<exists>n. rows db' = map (\<lambda>r. if r ! 0 = c_string i then r[4 := to_dec (Suc n)] else r) (rows db) \<and>
             (\<exists>r\<in>set (rows db). r ! 0 = c_string i \<and> r ! 4 = to_dec n)))"
  using tab
proof (cases rule: view_read_step [of sq rows db i])
  case (none db')
  then show ?thesis using tab(2) by (simp add: get_meme_by_id_def view_write_def table_step_def)
next
  case (one r db')
  obtain n where n: "r ! 4 = to_dec n" "int n \<le> int_max" using one(4) by (auto simp: row_ok_def)
  have full: "counter_full (rows db) (c_string i) \<longleftrightarrow> int n = int_max"
  proof
    assume "counter_full (rows db) (c_string i)"
    then obtain q where q: "q \<in> set (rows db)" "q ! 0 = c_string i" "stoi (q ! 4) = Inr int_max"
      unfolding counter_full_def by (elim bexE conjE)
    from q(2) one(5) have "q ! 0 = r ! 0" by simp
    from one_row [OF tab(2) q(1) one(3) this] q(3) stoi_counter [OF n] show "int n = int_max" by simp
  next
    assume "int n = int_max"
    with one(3,5) stoi_counter [OF n] show "counter_full (rows db) (c_string i)"
      unfolding counter_full_def by (intro bexI [of _ r]) simp_all
  qed
  show ?thesis
  proof (cases "int n = int_max")
    case True
    then have "view_write sq [r] db' = (Inl Undefined, db')"
      using view_write_full [OF one(4)] stoi_counter [OF n] by simp
    then show ?thesis using one full True tab(2) by (simp add: get_meme_by_id_def table_step_def)
  next
    case False
    then have lt: "int n < int_max" "int (Suc n) \<le> int_max" using n(2) by simp_all
    obtain db2 where "view_write sq [r] db' = (Inr (json_response (meme_json (r ! 1) (r ! 2) (r ! 3))), db2)"
      "rows db2 = map (\<lambda>q. if q ! 0 = c_string i then q[4 := to_dec (Suc n)] else q) (rows db')"
      using view_write_step [of sq rows r n db', OF tab(1) one(4) n(1) lt(1)] unfolding one(5) by (elim exE conjE)
    then show ?thesis
      using viewed_ok [OF tab(2) lt(2), of "c_string i"] one full False n(1)
      by (auto simp: get_meme_by_id_def table_step_def)
  qed
qed

lemma list_step:
  "meme_table sq rows \<Longrightarrow> \<exists>res db'. meme_list sq db = (res, db') \<and> rows db' = rows db"
  using all_rows [of sq rows db] by (fastforce simp: meme_list_def)

lemma search_step:
  "meme_table sq rows \<Longrightarrow> \<exists>res db'. meme_search sq q db = (res, db') \<and> rows db' = rows db"
proof (cases "UriDecode q")
  case (Inr d)
  assume "meme_table sq rows"
  from search_rows [OF this, of d d db] show ?thesis
    by (fastforce simp: meme_search_def push_def Inr numeral_2_eq_2)
qed (simp add: meme_search_def)

text \<open>Whatever the request, the table stays well formed and changes as the abstract step says.\<close>

lemma meme_handle_step:
  assumes "meme_table sq rows" "table_ok (rows db)"
    and "gen db = (Inr new_id, db1)" "rows db1 = rows db" "check_id new_id"
  shows "table_step rows (meme_map_step req new_id (docs (rows db))) (snd (meme_handle_request sq gen req db))"
proof -
  let ?i = "check_uri (get_uri req)"
  consider (post) "get_method req = ''POST''" | (put) "get_method req = ''PUT''" | (delete) "get_method req = ''DELETE''"
    | (get) "get_method req = ''GET''" | (other) "get_method req \<notin> {''POST'', ''PUT'', ''DELETE'', ''GET''}" by auto
  then show ?thesis
  proof cases
    case post
    then have h: "meme_handle_request sq gen req db = create_meme sq gen req db" by (simp add: meme_handle_request_def Let_def)
    show ?thesis
    proof (cases "body_doc req")
      case None
      then have "snd (create_meme sq gen req db) = db" using create_meme_state body_doc_ok by metis
      with None post assms(2) show ?thesis by (simp add: h meme_map_step_def table_step_def Let_def)
    next
      case (Some ps)
      from create_step [of sq rows db gen new_id db1 req ps, OF assms(1-5) Some] post Some
      show ?thesis unfolding h meme_map_step_def Let_def by (elim exE conjE) (simp split: if_splits)
    qed
  next
    case put
    then have h: "meme_handle_request sq gen req db = update_meme sq ?i req db" by (simp add: meme_handle_request_def Let_def)
    show ?thesis
    proof (cases "body_doc req \<noteq> None \<and> check_id ?i")
      case False
      then have "snd (update_meme sq ?i req db) = db" using update_meme_state body_doc_ok by metis
      moreover have "meme_map_step req new_id m = m" for m using False put by (auto simp: meme_map_step_def Let_def)
      ultimately show ?thesis using assms(2) by (simp add: h table_step_def)
    next
      case True
      then obtain ps where ps: "body_doc req = Some ps" by blast
      from update_step [of sq rows db ?i req ps, OF assms(1,2) conjunct2 [OF True] ps] put True ps
      show ?thesis unfolding h meme_map_step_def Let_def by (elim exE conjE) (simp split: if_splits)
    qed
  next
    case delete
    then have h: "meme_handle_request sq gen req db = delete_meme sq ?i req db" by (simp add: meme_handle_request_def Let_def)
    show ?thesis
    proof (cases "check_id ?i")
      case False
      then have "snd (delete_meme sq ?i req db) = db" using delete_meme_state by metis
      with False delete assms(2) show ?thesis by (simp add: h meme_map_step_def table_step_def Let_def)
    next
      case True
      from delete_step [of sq rows db ?i req, OF assms(1,2) True] delete True
      show ?thesis unfolding h meme_map_step_def Let_def by (elim exE conjE) simp
    qed
  next
    case get
    then have m: "meme_map_step req new_id m = m" for m by (simp add: meme_map_step_def Let_def)
    have idle: "table_step rows (docs (rows db)) db2" if "rows db2 = rows db" for db2
      using that assms(2) by (simp add: table_step_def)
    have "table_step rows (docs (rows db)) (snd (get_meme_by_id sq ?i db))"
      using get_step [of sq rows db ?i, OF assms(1,2)] by (elim exE conjE) simp
    moreover have "table_step rows (docs (rows db)) (snd (meme_list sq db))"
      using list_step [OF assms(1), of db] by (elim exE conjE) (simp add: idle)
    moreover have "table_step rows (docs (rows db)) (snd (meme_search sq q db))" for q
      using search_step [OF assms(1), of q db] by (elim exE conjE) (simp add: idle)
    moreover have "table_step rows (docs (rows db)) (snd (io_return x db))" for x :: response
      by (simp add: idle)
    ultimately show ?thesis using get unfolding m meme_handle_request_def Let_def by simp
  next
    case other
    then show ?thesis using assms(2) by (simp add: meme_handle_request_def meme_map_step_def table_step_def Let_def)
  qed
qed

text \<open>
  C5: the handler refines a map from identifiers to documents. Whatever the request, the table
  stays well formed, and the map of its rows changes by the abstract step: a POST with a valid body
  adds a document under the identifier that is drawn, a PUT replaces one that exists, a DELETE removes
  one, and nothing else changes any.
\<close>

theorem meme_refines_map:
  assumes "meme_table sq rows" "table_ok (rows db)"
    and "gen db = (Inr new_id, db1)" "rows db1 = rows db" "check_id new_id"
    and "meme_handle_request sq gen req db = (res, db')"
  shows "table_ok (rows db') \<and> docs (rows db') = meme_map_step req new_id (docs (rows db))"
  using meme_handle_step [of sq rows db gen new_id db1 req, OF assms(1-5)] assms(6) by (simp add: table_step_def)

subsection \<open>An instance of the contract\<close>

definition list_sqlite :: "string list list sqlite" where
  "list_sqlite = \<lparr>sqlite_open = (\<lambda>_ t. (0, t)), sqlite_close = (\<lambda>t. (0, t)), sqlite_exec = (\<lambda>_ t. (0, t)),
     sqlite_query = (\<lambda>q vs t.
       if q = sql_insert then (if \<exists>r\<in>set t. r ! 0 = vs ! 0 then (([], 19), t) else (([], SQLITE_DONE), t @ [vs]))
       else if q = sql_update
       then (([], SQLITE_DONE), map (\<lambda>r. if r ! 0 = vs ! 3 then r[1 := vs ! 0, 2 := vs ! 1, 3 := vs ! 2] else r) t)
       else if q = sql_viewed then (([], SQLITE_DONE), map (\<lambda>r. if r ! 0 = vs ! 1 then r[4 := vs ! 0] else r) t)
       else if q = sql_delete then (([], SQLITE_DONE), filter (\<lambda>r. r ! 0 \<noteq> vs ! 0) t)
       else if q = sql_select then ((map (map Some) (filter (\<lambda>r. r ! 0 = vs ! 0) t), SQLITE_DONE), t)
       else if q = sql_all then ((map (map Some) t, SQLITE_DONE), t)
       else ((map (map Some) (filter (\<lambda>r. sublist (vs ! 0) (r ! 2) \<or> sublist (vs ! 1) (r ! 3)) t), SQLITE_DONE), t))\<rparr>"

lemma sql_neq [simp]:
  "sql_insert \<noteq> sql_update" "sql_insert \<noteq> sql_viewed" "sql_insert \<noteq> sql_delete" "sql_insert \<noteq> sql_select" "sql_insert \<noteq> sql_all" "sql_insert \<noteq> sql_search"
  "sql_update \<noteq> sql_insert" "sql_update \<noteq> sql_viewed" "sql_update \<noteq> sql_delete" "sql_update \<noteq> sql_select" "sql_update \<noteq> sql_all" "sql_update \<noteq> sql_search"
  "sql_viewed \<noteq> sql_insert" "sql_viewed \<noteq> sql_update" "sql_viewed \<noteq> sql_delete" "sql_viewed \<noteq> sql_select" "sql_viewed \<noteq> sql_all" "sql_viewed \<noteq> sql_search"
  "sql_delete \<noteq> sql_insert" "sql_delete \<noteq> sql_update" "sql_delete \<noteq> sql_viewed" "sql_delete \<noteq> sql_select" "sql_delete \<noteq> sql_all" "sql_delete \<noteq> sql_search"
  "sql_select \<noteq> sql_insert" "sql_select \<noteq> sql_update" "sql_select \<noteq> sql_viewed" "sql_select \<noteq> sql_delete" "sql_select \<noteq> sql_all" "sql_select \<noteq> sql_search"
  "sql_all \<noteq> sql_insert" "sql_all \<noteq> sql_update" "sql_all \<noteq> sql_viewed" "sql_all \<noteq> sql_delete" "sql_all \<noteq> sql_select" "sql_all \<noteq> sql_search"
  "sql_search \<noteq> sql_insert" "sql_search \<noteq> sql_update" "sql_search \<noteq> sql_viewed" "sql_search \<noteq> sql_delete" "sql_search \<noteq> sql_select" "sql_search \<noteq> sql_all"
  by code_simp+

lemma nth_numerals: "(xs :: 'a list) ! 2 = xs ! Suc (Suc 0)" "xs ! 3 = xs ! Suc (Suc (Suc 0))"
  by (simp_all add: numeral_2_eq_2 numeral_3_eq_3)

lemma list_sqlite_table: "meme_table list_sqlite (\<lambda>t. t)"
  unfolding meme_table_def
  by (intro conjI) (simp_all add: list_sqlite_def SQLITE_DONE_def nth_numerals multiset_filter_subset)

definition sample_id :: string where
  "sample_id = ''01234567-89ab-cdef-0123-456789abcdef''"

lemma sample_id_ok: "check_id sample_id"
  by code_simp

definition sample_rows :: "string list list" where
  "sample_rows = [[sample_id, ''a.jpg'', ''x'', ''y'', ''41'']]"

lemma sample_rows_ok: "table_ok sample_rows"
proof -
  have "NUL \<notin> set sample_id" using uuid_clean(1) [OF sample_id_ok] .
  moreover have "caption_text ''a.jpg''" "caption_text ''x''" "caption_text ''y''" by code_simp+
  moreover have "to_dec 41 = ''41''" by code_simp
  then have "\<exists>n. ''41'' = to_dec n \<and> int n \<le> int_max" by (intro exI [of _ 41]) (simp add: int_max_def)
  ultimately show ?thesis by (simp add: table_ok_def sample_rows_def row_ok_five)
qed

theorem meme_refines_map_witness:
  "docs (snd (meme_handle_request list_sqlite (io_return sample_id) sample_delete sample_rows)) sample_id = None"
proof -
  have c: "get_method sample_delete = ''DELETE''" "check_uri (get_uri sample_delete) = sample_id" by code_simp+
  obtain res t where r: "meme_handle_request list_sqlite (io_return sample_id) sample_delete sample_rows = (res, t)"
    by (cases "meme_handle_request list_sqlite (io_return sample_id) sample_delete sample_rows")
  have "docs t = meme_map_step sample_delete sample_id (docs sample_rows)"
    using meme_refines_map [OF list_sqlite_table sample_rows_ok _ _ sample_id_ok r] by simp
  then show ?thesis by (simp add: r meme_map_step_def c sample_id_ok)
qed

subsection \<open>Reading a document\<close>

lemma docs_json_strings:
  assumes "table_ok t" "docs t i = Some d"
  shows "json_strings (meme_json (d ! 0) (d ! 1) (d ! 2)) =
    [''memeSelect'', d ! 0, ''topCaption'', d ! 1, ''bottomCaption'', d ! 2]"
proof -
  from docs_Some [OF assms(2)] obtain r where "r \<in> set t" "d = [r ! 1, r ! 2, r ! 3]" by blast
  moreover from this assms(1) have "row_ok r" by (simp add: table_ok_def)
  ultimately show ?thesis
    by (intro meme_json_strings caption_no_quote) (simp_all add: row_ok_def caption_text_def numeral_2_eq_2)
qed

lemma handle_get_id:
  assumes "get_method req = ''GET''" "check_uri (get_uri req) = i" "check_id i"
  shows "meme_handle_request sq gen req db = get_meme_by_id sq i db"
  using assms uuid_not_special [OF assms(3)] by (simp add: meme_handle_request_def)

lemma json_response_body [simp]:
  "get_status_code (json_response t) = 200" "Response.get_body (json_response t) = t"
  by (simp_all add: json_response_def handler_simps)

text \<open>
  C28: a GET for an identifier is answered from the map: 404 when it has no document; otherwise 200
  with a text whose strings are the document, and the counter of its row is increased by one, no
  other row changing; only a counter at 2147483647 makes the request undefined.
\<close>

theorem meme_view:
  assumes "meme_table sq rows" "table_ok (rows db)" "get_method req = ''GET''" "check_uri (get_uri req) = i" "check_id i"
    and "meme_handle_request sq gen req db = (res, db')"
  shows "(case docs (rows db) i of
      None \<Rightarrow> res = Inr (text_response 404 (''The requested file could not be found!'' @ [LF])) \<and> rows db' = rows db
    | Some d \<Rightarrow> if counter_full (rows db) i then res = Inl Undefined
        else (\<exists>resp n. res = Inr resp \<and> get_status_code resp = 200 \<and>
          json_strings (Response.get_body resp) = [''memeSelect'', d ! 0, ''topCaption'', d ! 1, ''bottomCaption'', d ! 2] \<and>
          (\<exists>r\<in>set (rows db). r ! 0 = i \<and> r ! 4 = to_dec n) \<and>
          rows db' = map (\<lambda>r. if r ! 0 = i then r[4 := to_dec (Suc n)] else r) (rows db)))"
proof -
  have h: "meme_handle_request sq gen req db = get_meme_by_id sq i db"
    by (rule handle_get_id [OF assms(3-5)])
  have g: "c_string i = i" by (rule uuid_clean(4) [OF assms(5)])
  obtain res' db2 where get: "get_meme_by_id sq i db = (res', db2)" by (cases "get_meme_by_id sq i db")
  then have r: "res' = res" "db2 = db'" using h assms(6) by simp_all
  show ?thesis
  proof (cases "docs (rows db) i")
    case None
    then show ?thesis using get_step [of sq rows db i, OF assms(1,2)] unfolding g by (simp add: get r)
  next
    case (Some d)
    show ?thesis
    proof (cases "counter_full (rows db) i")
      case True
      then show ?thesis using get_step [of sq rows db i, OF assms(1,2)] Some unfolding g by (simp add: get r)
    next
      case False
      then obtain n where n: "res = Inr (json_response (meme_json (d ! 0) (d ! 1) (d ! 2)))"
        "rows db' = map (\<lambda>r. if r ! 0 = i then r[4 := to_dec (Suc n)] else r) (rows db)"
        "\<exists>r\<in>set (rows db). r ! 0 = i \<and> r ! 4 = to_dec n"
        using get_step [of sq rows db i, OF assms(1,2)] Some False unfolding g get r by auto
      then show ?thesis unfolding Some option.case using False n docs_json_strings [OF assms(2) Some]
        by (simp only: if_False)
          (rule exI [of _ "json_response (meme_json (d ! 0) (d ! 1) (d ! 2))"], rule exI [of _ n], simp)
    qed
  qed
qed

definition sample_view :: request where
  "sample_view = (new_request [] [])\<lparr>http_method := ''GET'', uri := ''/memes/'' @ sample_id\<rparr>"

theorem meme_view_witness:
  "\<exists>resp. fst (meme_handle_request list_sqlite (io_return sample_id) sample_view sample_rows) = Inr resp \<and>
     json_strings (Response.get_body resp) = [''memeSelect'', ''a.jpg'', ''topCaption'', ''x'', ''bottomCaption'', ''y'']"
proof -
  have c: "get_method sample_view = ''GET''" "check_uri (get_uri sample_view) = sample_id" by code_simp+
  obtain res t where r: "meme_handle_request list_sqlite (io_return sample_id) sample_view sample_rows = (res, t)"
    by (cases "meme_handle_request list_sqlite (io_return sample_id) sample_view sample_rows")
  have d: "docs sample_rows sample_id = Some [''a.jpg'', ''x'', ''y'']" by (simp add: docs_def sample_rows_def numeral_2_eq_2)
  have "stoi ''41'' = Inr 41" by code_simp
  then have f: "\<not> counter_full sample_rows sample_id" by (simp add: counter_full_def sample_rows_def int_max_def)
  show ?thesis
    using meme_view [OF list_sqlite_table sample_rows_ok c sample_id_ok r] by (auto simp: d f r numeral_2_eq_2)
qed

text \<open>
  C29: what is posted is what is read. A POST with a valid body and an identifier that is not in the
  table is answered 201 with that identifier, and the GET of \<open>/memes/<identifier>\<close> that follows with the
  document of the body.
\<close>

theorem create_then_view:
  assumes "meme_table sq rows" "table_ok (rows db)"
    and "gen db = (Inr new_id, db1)" "rows db1 = rows db" "check_id new_id" "new_id \<notin> dom (docs (rows db))"
    and "get_method post = ''POST''" "body_doc post = Some ps"
    and "get_method view = ''GET''" "get_uri view = ''/memes/'' @ new_id"
  shows "\<exists>db' db''. meme_handle_request sq gen post db = (Inr (id_response 201 new_id), db') \<and>
    meme_handle_request sq gen view db' = (Inr (json_response (meme_json (ps ! 0) (ps ! 1) (ps ! 2))), db'') \<and>
    json_strings (meme_json (ps ! 0) (ps ! 1) (ps ! 2)) =
      [''memeSelect'', ps ! 0, ''topCaption'', ps ! 1, ''bottomCaption'', ps ! 2]"
proof -
  obtain db' where created: "create_meme sq gen post db = (Inr (id_response 201 new_id), db')"
      "table_step rows ((docs (rows db))(new_id \<mapsto> ps)) db'"
      "rows db' = rows db @ [[new_id, ps ! 0, ps ! 1, ps ! 2, ''0'']]"
    using create_step [of sq rows db gen new_id db1 post ps, OF assms(1-5,8)] unfolding if_not_P [OF assms(6)]
    using assms(6) by (elim exE conjE) simp
  have tab: "table_ok (rows db')" and d: "docs (rows db') new_id = Some ps"
    using created(2) by (simp_all add: table_step_def)
  have "stoi ''0'' = Inr 0" by code_simp
  then have f: "\<not> counter_full (rows db') new_id"
    using assms(6) by (auto simp: counter_full_def created(3) docs_dom int_max_def)
  have uri: "check_uri (get_uri view) = new_id"
    unfolding assms(10) by (rule check_uri_memes [OF uuid_clean(3) [OF assms(5)]])
  obtain db'' where "get_meme_by_id sq new_id db' = (Inr (json_response (meme_json (ps ! 0) (ps ! 1) (ps ! 2))), db'')"
    using get_step [of sq rows db' new_id, OF assms(1) tab] f unfolding uuid_clean(4) [OF assms(5)] d option.case
    by (elim exE conjE) simp
  moreover have "meme_handle_request sq gen post db = create_meme sq gen post db"
    using assms(7) by (simp add: meme_handle_request_def Let_def)
  ultimately show ?thesis
    using created(1) handle_get_id [OF assms(9) uri assms(5), of sq gen db'] docs_json_strings [OF tab d] by simp
qed

definition sample_post_meme :: request where
  "sample_post_meme = (new_request [] [])\<lparr>http_method := ''POST'', uri := ''/memes'',
     request_body := ''memeSelect=b.jpg&topCaption=hi&bottomCaption=there''\<rparr>"

theorem create_then_view_witness:
  "\<exists>t t'. meme_handle_request list_sqlite (io_return sample_id) sample_post_meme [] = (Inr (id_response 201 sample_id), t) \<and>
     meme_handle_request list_sqlite (io_return sample_id) sample_view t =
       (Inr (json_response (meme_json ''b.jpg'' ''hi'' ''there'')), t')"
proof -
  have c: "get_method sample_post_meme = ''POST''" "body_doc sample_post_meme = Some [''b.jpg'', ''hi'', ''there'']"
    "get_method sample_view = ''GET''" "get_uri sample_view = ''/memes/'' @ sample_id" by code_simp+
  have "table_ok []" "sample_id \<notin> dom (docs [])" "io_return sample_id [] = (Inr sample_id, [])"
    by (simp_all add: io_return_def)
  from create_then_view [of list_sqlite "\<lambda>t. t" "[]" "io_return sample_id" sample_id "[]", OF list_sqlite_table this(1,3) refl sample_id_ok this(2) c]
  show ?thesis by (auto simp: numeral_2_eq_2)
qed

end
