(* ===== verification/System_Props.thy ===== *)
theory System_Props
  imports Meme_Map Server_Props
begin

text \<open>
  The whole program against its outside world: the memes under the server. Selecting a handler and
  running it keep the table well formed (\<open>keeps\<close> of the prelude, layer by layer), and a request to
  create a meme is followed from the bytes on the socket to the map of documents and the response that
  is read back.
\<close>

subsection \<open>The environment\<close>

text \<open>
  SQLite keeps the contract of \<open>Meme_Store\<close>, nothing on the network touches the database file, and the
  generator of \<open>boost::uuids\<close> gives identifiers in their usual notation.
\<close>

definition meme_environment :: "'w environment \<Rightarrow> ('w \<Rightarrow> string list list) \<Rightarrow> bool" where
  "meme_environment env rows \<longleftrightarrow> meme_table (database env) rows \<and>
     (\<forall>host port msg w. rows (snd (network env host port msg w)) = rows w) \<and>
     (\<forall>w. \<exists>i w'. random_uuid env w = (Inr i, w') \<and> check_id i \<and> rows w' = rows w)"

lemma keeps_same: "(\<And>w. rows (snd (m w)) = rows w) \<Longrightarrow> keeps (\<lambda>w. table_ok (rows w)) m"
  by (simp add: keeps_def)

subsection \<open>Layer by layer\<close>

lemma proxy_keeps:
  assumes "\<And>host port msg. keeps P (net host port msg)"
  shows "keeps P (proxy_handle_request net h req)"
  unfolding proxy_handle_request_def constructGetRequest_def sendGetRequest_def Let_def
  by (auto intro!: keeps_intros assms split: option.split prod.split)

lemma new_meme_handler_rows:
  assumes "meme_table sq rows"
  shows "rows (snd (new_meme_handler sq conf path w)) = rows w"
proof (cases "parse_config conf path")
  case (Inr h)
  obtain a w1 where o1: "sqlite_open sq (c_string ''meme.db'') w = (a, w1)" by (cases "sqlite_open sq (c_string ''meme.db'') w")
  obtain b w2 where o2: "sqlite_exec sq sql_create w1 = (b, w2)" by (cases "sqlite_exec sq sql_create w1")
  have "rows w1 = rows w" using meme_tableD(1) [OF assms, rule_format, of "c_string ''meme.db''" w] by (simp add: o1)
  moreover have "rows w2 = rows w1" using meme_tableD(2) [OF assms, rule_format, of w1] by (simp add: o2)
  moreover have "snd (new_meme_handler sq conf path w) = w2"
    by (simp add: new_meme_handler_def Inr sql_connect_def create_table_def o1 o2 push_def statement_texts io_bind_def)
  ultimately show ?thesis by simp
qed (simp add: new_meme_handler_def)

lemma meme_handle_keeps:
  assumes "meme_environment env rows"
  shows "keeps (\<lambda>w. table_ok (rows w)) (meme_handle_request (database env) (random_uuid env) req)"
proof (rule keepsI)
  fix w assume ok: "table_ok (rows w)"
  have tab: "meme_table (database env) rows" using assms by (simp add: meme_environment_def)
  obtain i w' where "random_uuid env w = (Inr i, w')" "check_id i" "rows w' = rows w"
    using assms unfolding meme_environment_def by metis
  from meme_handle_step [of "database env" rows w "random_uuid env" i w' req, OF tab ok this(1,3,2)]
  show "table_ok (rows (snd (meme_handle_request (database env) (random_uuid env) req w)))"
    by (simp add: table_step_def)
qed

lemma handle_request_keeps:
  assumes "meme_environment env rows"
  shows "keeps (\<lambda>w. table_ok (rows w)) (handle_request env rec h req)"
proof (cases h)
  case (Reverse_proxy_handler p)
  have "keeps (\<lambda>w. table_ok (rows w)) (network env host port msg)" for host port msg
    using assms by (intro keeps_same) (simp add: meme_environment_def)
  then show ?thesis unfolding Reverse_proxy_handler handle_request.simps by (rule proxy_keeps)
next
  case (Meme_handler m)
  then show ?thesis using meme_handle_keeps [OF assms] by simp
qed (auto intro: keeps_intros)

lemma select_handler_keeps:
  assumes "meme_environment env rows"
  shows "keeps (\<lambda>w. table_ok (rows w)) (select_handler env r u)"
proof -
  have "keeps (\<lambda>w. table_ok (rows w)) (new_meme_handler (database env) conf path)" for conf path
    using assms new_meme_handler_rows [of "database env" rows] by (intro keeps_same) (simp add: meme_environment_def)
  then show ?thesis unfolding select_handler_def create_handler_defs Let_def by (auto intro!: keeps_intros)
qed

definition list_env :: "string list list environment" where
  "list_env = \<lparr>files = sample_files, network = (\<lambda>_ _ _. io_return ([], Eof)), database = list_sqlite,
     random_uuid = io_return sample_id\<rparr>"

lemma list_env_ok: "meme_environment list_env (\<lambda>t. t)"
  using list_sqlite_table sample_id_ok by (simp add: meme_environment_def list_env_def)

subsection \<open>A meme from the socket to the table\<close>

lemma select_meme:
  assumes "router_ok r" "meme_table (database env) rows"
    and "get_route_handler r (longest_prefix_match r u) = Inr ''meme''"
  shows "\<exists>h w'. select_handler env r u w = (Inr (Meme_handler h), w') \<and> rows w' = rows w"
proof -
  have cfg: "get_handler_config r m = Inr (map_of (rev (handler_blocks (config_of r))) m)" for m
    using assms(1) by (simp add: router_ok_def get_handler_config_eq)
  have "''meme'' \<in> fst ` set (handler_blocks (config_of r))"
    using get_route_handler_ok [OF assms(1), of "longest_prefix_match r u"] assms(3) by simp
  then obtain b where b: "map_of (rev (handler_blocks (config_of r))) ''meme'' = Some b"
    using map_of_rev_None [of "handler_blocks (config_of r)" "''meme''"]
    by (cases "map_of (rev (handler_blocks (config_of r))) ''meme''") auto
  obtain h w' where new: "new_meme_handler (database env) (Some b) (server_root r) w = (Inr h, w')"
    using new_meme_handler_returns [of "database env" b "server_root r" w]
    by (cases "new_meme_handler (database env) (Some b) (server_root r) w") (auto simp: returns_def split: sum.splits)
  then have "select_handler env r u w = (Inr (Meme_handler h), w')"
    by (simp add: select_handler_def create_handler_defs assms(3) cfg b Let_def)
  moreover have "rows w' = rows w" using new_meme_handler_rows [OF assms(2), of "Some b" "server_root r" w] new by simp
  ultimately show ?thesis by blast
qed

lemma read_id_response:
  "read_response (snd (generate_response (id_response 201 i))) =
     Some (''HTTP/1.1 201 Created'', [(''Content-Type'', ''application/json'')], id_json i)"
proof -
  have clean: "headers_clean [(''Content-Type'', ''application/json'')]" by code_simp
  have "response_headers (id_response 201 i) = [(''Content-Type'', ''application/json'')]"
    by (simp add: id_response_def response_simps um_defs)
  moreover have "status_code (id_response 201 i) = 201" "response_body (id_response 201 i) = id_json i"
    by (simp_all add: id_response_def response_simps)
  moreover have "status_line_text 201 = ''HTTP/1.1 201 Created''" by code_simp
  ultimately show ?thesis by (simp add: read_generate_response clean)
qed

text \<open>
  C4: a meme posted to the server is stored. When the bytes of a valid POST with a valid body, read
  whole by a session, are routed to the meme handler, the document of the body is added to the table
  under an identifier that was free, nothing else in the map of documents changes, one request with
  status 201 is recorded, and the client reads 201 and the identifier in JSON. The target has no query
  behind a path of more than 15 characters.
\<close>

theorem served_create:
  assumes "router_ok r" "headers r = um_empty"
    and "um_find (route_map r) (longest_prefix_match r (fst (cut_query u))) = Some ''meme''"
    and "meme_environment env rows" "table_ok (rows w)"
    and "\<forall>w1 i w2. random_uuid env w1 = (Inr i, w2) \<longrightarrow> i \<notin> dom (docs (rows w))"
    and "status_line_ok ''POST'' u d1 d2" "\<not> long_query u" and data: "data = status_line ''POST'' u d1 d2 @ rest"
    and "body_doc (new_request data beyond) = Some ps"
  shows "\<exists>i s' w'. handle_read (route_request env r) beyond False (length data) (receive data s, (rec, w)) =
      (Inr (), (s', (request_recorder (fst (cut_query u)) 201 rec, w'))) \<and>
    read_response (last (sent s')) =
      Some (''HTTP/1.1 201 Created'', [(''Content-Type'', ''application/json'')], id_json i) \<and>
    check_id i \<and> i \<notin> dom (docs (rows w)) \<and> docs (rows w') = (docs (rows w))(i \<mapsto> ps) \<and> table_ok (rows w')"
proof -
  define req where "req = new_request data beyond"
  have req: "is_valid req" "get_uri req = fst (cut_query u)" "get_method req = ''POST''"
    unfolding req_def by (simp_all add: new_request_ok [OF assms(7) data] request_getters)
  have ps: "body_doc req = Some ps" using assms(10) by (simp add: req_def)
  have tab: "meme_table (database env) rows" using assms(4) by (simp add: meme_environment_def)
  have name: "get_route_handler r (longest_prefix_match r (get_uri req)) = Inr ''meme''"
    using assms(3) by (simp add: get_route_handler_def req)
  obtain h w1 where sel: "select_handler env r (get_uri req) w = (Inr (Meme_handler h), w1)" "rows w1 = rows w"
    using select_meme [of r env rows "get_uri req" w, OF assms(1) tab name] by (elim exE conjE)
  obtain i w2 where uuid: "random_uuid env w1 = (Inr i, w2)" "check_id i" "rows w2 = rows w1"
    using assms(4) unfolding meme_environment_def by metis
  have free: "i \<notin> dom (docs (rows w1))" using assms(6) [rule_format, OF uuid(1)] sel(2) by simp
  have "table_ok (rows w1)" using assms(5) sel(2) by simp
  from create_step [of "database env" rows w1 "random_uuid env" i w2 req ps, OF tab this uuid(1,3,2) ps]
  obtain w3 where w3: "create_meme (database env) (random_uuid env) req w1 = (Inr (id_response 201 i), w3)"
    "table_step rows ((docs (rows w1))(i \<mapsto> ps)) w3"
    unfolding if_not_P [OF free] by (elim exE conjE)
  then have handled: "handle_request env rec (Meme_handler h) req w1 = (Inr (id_response 201 i), w3)"
    using req(3) by (simp add: meme_handle_request_def Let_def)
  have "get_status_code (id_response 201 i) = 201" by (simp add: id_response_def handler_simps)
  with served_by [OF assms(7) data assms(8,2) sel(1) [unfolded req(2)] handled [unfolded req_def], of s]
  obtain s' where s': "handle_read (route_request env r) beyond False (length data) (receive data s, (rec, w)) =
      (Inr (), (s', (request_recorder (fst (cut_query u)) 201 rec, w3)))"
    "last (sent s') = snd (generate_response (id_response 201 i))" by auto
  have "check_id i \<and> i \<notin> dom (docs (rows w)) \<and> docs (rows w3) = (docs (rows w))(i \<mapsto> ps) \<and> table_ok (rows w3)"
    using w3(2) uuid(2) free sel(2) by (simp add: table_step_def)
  with s' show ?thesis by (intro exI [of _ i] exI [of _ s'] exI [of _ w3]) (simp add: read_id_response)
qed

definition meme_router_config :: config where
  "meme_router_config = [Statement [''handler'', ''meme''] (Some [Statement [''location'', ''/memes''] None])]"

definition meme_router :: router where
  "meme_router = (case register_routes_from_config (new_router meme_router_config ''.'', new_recorder) of
     Inr (r, rec) \<Rightarrow> r | Inl e \<Rightarrow> new_router [] '''')"

lemma meme_router_ok: "router_ok meme_router" "headers meme_router = um_empty"
proof -
  have "list_all has_tokens meme_router_config" by code_simp
  moreover have "map_sum id fst (register_routes_from_config (new_router meme_router_config ''.'', new_recorder)) =
      Inr meme_router" by code_simp
  then obtain rec where "register_routes_from_config (new_router meme_router_config ''.'', new_recorder) = Inr (meme_router, rec)"
    by (cases "register_routes_from_config (new_router meme_router_config ''.'', new_recorder)") auto
  ultimately show "router_ok meme_router" using register_config_router_ok by blast
  show "headers meme_router = um_empty" by code_simp
qed

definition post_bytes :: string where
  "post_bytes = status_line ''POST'' ''/memes'' (CHR ''1'') (CHR ''1'') @ CRLF @ ''memeSelect=b.jpg&topCaption=hi&bottomCaption=there''"

theorem served_create_witness:
  "\<exists>i s' w'. handle_read (route_request list_env meme_router) [] False (length post_bytes)
      (receive post_bytes sample_start, (new_recorder, [])) =
      (Inr (), (s', (request_recorder ''/memes'' 201 new_recorder, w'))) \<and>
    docs w' = [i \<mapsto> [''b.jpg'', ''hi'', ''there'']]"
proof -
  have m: "um_find (route_map meme_router) (longest_prefix_match meme_router (fst (cut_query ''/memes''))) = Some ''meme''"
    by code_simp
  have u: "fst (cut_query ''/memes'') = ''/memes''" by code_simp
  have ok: "status_line_ok ''POST'' ''/memes'' (CHR ''1'') (CHR ''1'')" "\<not> long_query ''/memes''" by code_simp+
  have b: "body_doc (new_request post_bytes []) = Some [''b.jpg'', ''hi'', ''there'']" by code_simp
  have f: "\<forall>w1 i w2. random_uuid list_env w1 = (Inr i, w2) \<longrightarrow> i \<notin> dom (docs [])" by simp
  have "table_ok []" by simp
  from served_create [of meme_router "''/memes''" list_env "\<lambda>t. t" "[]", OF meme_router_ok m list_env_ok this f ok post_bytes_def b]
  show ?thesis unfolding u by force
qed

end
