(* ===== verification/Thread_Pool.thy ===== *)
theory Thread_Pool
  imports System_Props
begin

text \<open>
  \<open>server::run\<close>: the threads of the pool, which run the callbacks of all sessions at the same time.

  A thread that runs \<open>router::route_request\<close> does it in actions, \<open>task_step\<close>: select the handler, run it,
  record the request, and finish (the handler is looked up again for the log, and the default headers
  are set). Running the handler is one action for the handlers that touch what threads share at most
  once. The status handler reads the recorder three times and a view of a meme makes two statements on
  the database; each is an action of its own. Between two actions of a thread the others go on:
  \<open>pool_step\<close> lets any thread act. That each action is a whole step follows from the locks of the
  recorder, whose lists are what threads share in memory, and from SQLite for a single statement.

  The lemmas: a request that is not interrupted goes as in \<open>route_request\<close>; whatever the interleaving,
  every request is recorded once; and views can be lost. \<open>Concurrent_Server\<close> puts the pool under the
  sessions.
\<close>

subsection \<open>The actions of a request\<close>

text \<open>
  \<open>Counted\<close> and \<open>Listed\<close>: the status handler has seen the recorder once, twice. \<open>Viewing\<close>: a view of a meme
  has read the rows of its identifier.
\<close>

datatype task =
    Selecting request
  | Handling handler request
  | Counted server_status_recorder request
  | Listed server_status_recorder server_status_recorder request
  | Viewing "string list list" request
  | Recording response request
  | Finishing response request

fun task_request :: "task \<Rightarrow> request" where
  "task_request (Selecting req) = req"
| "task_request (Handling h req) = req"
| "task_request (Counted r1 req) = req"
| "task_request (Listed r1 r2 req) = req"
| "task_request (Viewing result req) = req"
| "task_request (Recording out req) = req"
| "task_request (Finishing out req) = req"

text \<open>The identifier that a request to the meme handler views: the last branch of its \<open>handle_request\<close>.\<close>

definition view_target :: "request \<Rightarrow> string option" where
  "view_target req =
     (let check = check_uri (get_uri req)
      in if get_method req \<noteq> ''GET'' then None
         else if check = ''create'' \<or> check = ''create/'' \<or> check = ''view'' \<or> check = ''view/'' then None
         else if 7 < length check \<and> take 7 check = ''manage/'' then None
         else if 5 < length check \<and> take 5 check = ''view/'' then None
         else if check = '''' \<or> check = ''/'' then None
         else if 7 < length check \<and> take 7 check = ''search/'' then None
         else Some check)"

lemma view_target_request:
  "view_target req = Some i \<Longrightarrow> meme_handle_request sq gen req = get_meme_by_id sq i"
  by (auto simp: view_target_def meme_handle_request_def Let_def split: if_splits)

definition handler_step :: "'w environment \<Rightarrow> handler \<Rightarrow> request \<Rightarrow> ('w shared, task) io" where
  "handler_step env h req = (\<lambda>(rec, w).
     case (h, view_target req) of
       (Status_handler, _) \<Rightarrow>
         (if get_url_response_list_size rec < 0 then Inl (Exit 1) else Inr (Counted rec req), (rec, w))
     | (Meme_handler m, Some i) \<Rightarrow>
         on_snd (io_bind (view_read (database env) i) (\<lambda>result. io_return (Viewing result req))) (rec, w)
     | _ \<Rightarrow> on_snd (io_bind (handle_request env rec h req) (\<lambda>out. io_return (Recording out req))) (rec, w))"

text \<open>The next action of a task gives the task that is left or the response.\<close>

fun task_step :: "'w environment \<Rightarrow> router \<Rightarrow> task \<Rightarrow> ('w shared, task + response) io" where
  "task_step env r (Selecting req) =
     io_bind (on_snd (select_handler env r (get_uri req))) (\<lambda>h. io_return (Inl (Handling h req)))"
| "task_step env r (Handling h req) = io_bind (handler_step env h req) (\<lambda>t. io_return (Inl t))"
| "task_step env r (Counted r1 req) = (\<lambda>(rec, w). (Inr (Inl (Listed r1 rec req)), (rec, w)))"
| "task_step env r (Listed r1 r2 req) =
     (\<lambda>(rec, w). io_bind (io_lift (status_handle_request (r1, r2, rec) req)) (\<lambda>out. io_return (Inl (Recording out req))) (rec, w))"
| "task_step env r (Viewing result req) =
     io_bind (on_snd (view_write (database env) result)) (\<lambda>out. io_return (Inl (Recording out req)))"
| "task_step env r (Recording out req) =
     io_bind (\<lambda>(rec, w). (Inr (), (request_recorder (get_uri req) (get_status_code out) rec, w)))
       (\<lambda>_. io_return (Inl (Finishing out req)))"
| "task_step env r (Finishing out req) =
     io_bind (io_lift (get_route_handler r (longest_prefix_match r (get_uri req))))
       (\<lambda>name. io_return (Inr (apply_default_headers r out)))"

lemma handler_step_cases:
  obtains (status) "h = Status_handler" "\<And>rec w. handler_step env h req (rec, w) =
      (if get_url_response_list_size rec < 0 then Inl (Exit 1) else Inr (Counted rec req), (rec, w))"
  | (view) m i where "h = Meme_handler m" "view_target req = Some i" "\<And>rec w. handler_step env h req (rec, w) =
      on_snd (io_bind (view_read (database env) i) (\<lambda>result. io_return (Viewing result req))) (rec, w)"
  | (whole) "\<And>rec w. handler_step env h req (rec, w) =
      on_snd (io_bind (handle_request env rec h req) (\<lambda>out. io_return (Recording out req))) (rec, w)"
      "h \<noteq> Status_handler" "\<And>m. h = Meme_handler m \<Longrightarrow> view_target req = None"
proof (cases h)
  case Status_handler
  then show thesis by (intro status) (simp_all add: handler_step_def)
next
  case (Meme_handler m)
  then show thesis using view whole by (cases "view_target req") (auto simp: handler_step_def)
qed (simp_all add: handler_step_def whole)

subsection \<open>The pool\<close>

text \<open>
  An idle thread is \<open>None\<close>. \<open>answers\<close> lists the requests that were answered and \<open>thrown\<close> those whose
  callback was left by an exception, which \<open>handle_success\<close> answers with 500. A fault of any other kind
  ends the process: there is no step.
\<close>

record 'w pool =
  threads :: "task option list"
  shared :: "'w shared"
  answers :: "(request \<times> response) list"
  thrown :: "request list"

definition server_threads :: "32 word \<Rightarrow> 'w shared \<Rightarrow> 'w pool" where
  "server_threads n sh =
     \<lparr>threads = replicate (unat n) None, shared = sh, answers = [], thrown = []\<rparr>"

inductive pool_step :: "'w environment \<Rightarrow> router \<Rightarrow> 'w pool \<Rightarrow> 'w pool \<Rightarrow> bool" for env r where
  take: "i < length (threads p) \<Longrightarrow> threads p ! i = None \<Longrightarrow>
     pool_step env r p (p\<lparr>threads := (threads p)[i := Some (Selecting req)]\<rparr>)"
| act: "i < length (threads p) \<Longrightarrow> threads p ! i = Some t \<Longrightarrow> task_step env r t (shared p) = (Inr (Inl t'), sh') \<Longrightarrow>
     pool_step env r p (p\<lparr>threads := (threads p)[i := Some t'], shared := sh'\<rparr>)"
| answer: "i < length (threads p) \<Longrightarrow> threads p ! i = Some t \<Longrightarrow> task_step env r t (shared p) = (Inr (Inr resp), sh') \<Longrightarrow>
     pool_step env r p (p\<lparr>threads := (threads p)[i := None], shared := sh',
       answers := answers p @ [(task_request t, resp)]\<rparr>)"
| throw: "i < length (threads p) \<Longrightarrow> threads p ! i = Some t \<Longrightarrow> task_step env r t (shared p) = (Inl (Raise e), sh') \<Longrightarrow>
     pool_step env r p (p\<lparr>threads := (threads p)[i := None], shared := sh', thrown := thrown p @ [task_request t]\<rparr>)"

abbreviation pool_run :: "'w environment \<Rightarrow> router \<Rightarrow> 'w pool \<Rightarrow> 'w pool \<Rightarrow> bool" where
  "pool_run env r \<equiv> (pool_step env r)\<^sup>*\<^sup>*"

subsection \<open>One request alone\<close>

text \<open>A task that is not interrupted, to its response or the exception that ends it.\<close>

inductive task_run :: "'w environment \<Rightarrow> router \<Rightarrow> task \<Rightarrow> 'w shared \<Rightarrow> response result \<Rightarrow> 'w shared \<Rightarrow> bool" for env r where
  answered: "task_step env r t sh = (Inr (Inr resp), sh') \<Longrightarrow> task_run env r t sh (Inr resp) sh'"
| threw: "task_step env r t sh = (Inl (Raise e), sh') \<Longrightarrow> task_run env r t sh (Inl (Raise e)) sh'"
| more: "task_step env r t sh = (Inr (Inl t'), sh1) \<Longrightarrow> task_run env r t' sh1 res sh' \<Longrightarrow> task_run env r t sh res sh'"

lemma handler_answers:
  assumes "handle_request env rec h req w = (Inr out, w')" "task_run env r (Recording out req) (rec, w') res sh'"
  shows "task_run env r (Handling h req) (rec, w) res sh'"
proof (cases rule: handler_step_cases [where h = h and env = env and req = req])
  case status
  have out: "status_handle_request (rec, rec, rec) req = Inr out" "w' = w" using assms(1) status(1) by simp_all
  then have "\<not> get_url_response_list_size rec < 0" by (auto simp: status_handle_request_def Let_def)
  then have "task_step env r (Handling h req) (rec, w) = (Inr (Inl (Counted rec req)), (rec, w))"
    "task_step env r (Counted rec req) (rec, w) = (Inr (Inl (Listed rec rec req)), (rec, w))"
    "task_step env r (Listed rec rec req) (rec, w) = (Inr (Inl (Recording out req)), (rec, w))"
    using out(1) status(2) by simp_all
  with assms(2) out(2) show ?thesis by (metis task_run.more)
next
  case (view m i)
  from assms(1) view(1) have "get_meme_by_id (database env) i w = (Inr out, w')"
    by (simp add: view_target_request [OF view(2)])
  then obtain result w1 where "view_read (database env) i w = (Inr result, w1)"
      "view_write (database env) result w1 = (Inr out, w')" by (auto simp: get_meme_by_id_def io_bind_eq_Inr)
  then have "task_step env r (Handling h req) (rec, w) = (Inr (Inl (Viewing result req)), (rec, w1))"
    "task_step env r (Viewing result req) (rec, w1) = (Inr (Inl (Recording out req)), (rec, w'))"
    using view(3) by simp_all
  with assms(2) show ?thesis by (metis task_run.more)
next
  case whole
  have "task_step env r (Handling h req) (rec, w) = (Inr (Inl (Recording out req)), (rec, w'))"
    using assms(1) whole by simp
  with assms(2) show ?thesis by (rule task_run.more [rotated])
qed

lemma route_request_answers:
  assumes "route_request env r req sh = (Inr (resp, l), sh')"
  shows "task_run env r (Selecting req) sh (Inr resp) sh'"
proof -
  obtain rec w rec' w' where sh: "sh = (rec, w)" "sh' = (rec', w')" by (cases sh, cases sh') auto
  obtain h w1 out name where sel: "select_handler env r (get_uri req) w = (Inr h, w1)"
      and han: "handle_request env rec h req w1 = (Inr out, w')"
      and fin: "get_route_handler r (longest_prefix_match r (get_uri req)) = Inr name"
      "resp = apply_default_headers r out" "rec' = request_recorder (get_uri req) (get_status_code out) rec"
    using assms unfolding sh route_request_eq by (elim exE conjE)
  have "task_step env r (Finishing out req) sh' = (Inr (Inr resp), sh')" using fin by simp
  moreover have "task_step env r (Recording out req) (rec, w') = (Inr (Inl (Finishing out req)), sh')"
    using fin by (simp add: sh io_bind_def)
  ultimately have "task_run env r (Recording out req) (rec, w') (Inr resp) sh'"
    by (metis task_run.more task_run.answered)
  then have "task_run env r (Handling h req) (rec, w1) (Inr resp) sh'" by (rule handler_answers [OF han])
  then show ?thesis by (rule task_run.more [rotated]) (simp add: sh sel)
qed

subsection \<open>Every request is recorded once\<close>

text \<open>What a task has recorded already.\<close>

fun task_record :: "task option \<Rightarrow> (string \<times> 32 word) multiset" where
  "task_record (Some (Finishing out req)) = {#(get_uri req, get_status_code out)#}"
| "task_record t = {#}"

definition in_flight :: "task option list \<Rightarrow> (string \<times> 32 word) multiset" where
  "in_flight ts = sum_list (map task_record ts)"

definition answer_record :: "request \<times> response \<Rightarrow> string \<times> 32 word" where
  "answer_record a = (get_uri (fst a), get_status_code (snd a))"

lemma in_flight_update:
  "i < length ts \<Longrightarrow> in_flight (ts[i := t]) + task_record (ts ! i) = in_flight ts + task_record t"
  unfolding in_flight_def by (rule sum_map_update)

lemma in_flight_idle: "set ts \<subseteq> {None} \<Longrightarrow> in_flight ts = {#}"
  by (induction ts) (auto simp: in_flight_def)

lemma in_flight_Some:
  "i < length ts \<Longrightarrow> ts ! i = x \<Longrightarrow> task_record x = {#} \<Longrightarrow> in_flight (ts[i := t]) = in_flight ts + task_record t"
  using in_flight_update [of i ts t] by simp

definition pool_recorded :: "server_status_recorder \<Rightarrow> 'w pool \<Rightarrow> bool" where
  "pool_recorded rec0 p \<longleftrightarrow>
     mset (url_response_list (fst (shared p))) =
       mset (url_response_list rec0) + mset (map answer_record (answers p)) + in_flight (threads p) \<and>
     prefix_handler_list (fst (shared p)) = prefix_handler_list rec0"

lemma handler_step_record:
  assumes "handler_step env h req sh = (res, sh')"
  shows "fst sh' = fst sh" "res = Inr t \<Longrightarrow> task_record (Some t) = {#}"
proof -
  obtain rec w where sh: "sh = (rec, w)" by (cases sh)
  have "fst sh' = rec \<and> (res = Inr t \<longrightarrow> task_record (Some t) = {#})"
    using assms unfolding sh
    by (cases rule: handler_step_cases [where h = h and env = env and req = req])
      (auto simp: on_snd_def io_bind_def split: prod.splits sum.splits if_splits)
  then show "fst sh' = fst sh" "res = Inr t \<Longrightarrow> task_record (Some t) = {#}" by (simp_all add: sh)
qed

lemma task_step_act:
  assumes "task_step env r t sh = (Inr (Inl t'), sh')"
  shows "prefix_handler_list (fst sh') = prefix_handler_list (fst sh) \<and> task_record (Some t) = {#} \<and>
    mset (url_response_list (fst sh')) = mset (url_response_list (fst sh)) + task_record (Some t')"
proof (cases t)
  case (Handling h req)
  with assms have "handler_step env h req sh = (Inr t', sh')" by (auto simp: io_bind_eq_Inr io_return_def)
  from handler_step_record [OF this] show ?thesis by (simp add: Handling)
qed (use assms in \<open>cases sh; auto simp: io_bind_eq_Inr on_snd_eq_iff io_lift_def io_return_def request_recorder_def\<close>)+

lemma task_step_answer:
  assumes "task_step env r t sh = (Inr (Inr resp), sh')"
  shows "sh' = sh \<and> task_record (Some t) = {#answer_record (task_request t, resp)#}"
  using assms
  by (cases t; cases sh) (auto simp: io_bind_eq_Inr on_snd_eq_iff io_lift_def io_return_def answer_record_def
      apply_default_headers_fields)

lemma task_step_throw:
  assumes "router_ok r" "task_step env r t sh = (Inl f, sh')"
  shows "fst sh' = fst sh \<and> task_record (Some t) = {#}"
proof (cases t)
  case (Handling h req)
  obtain res sh1 where h: "handler_step env h req sh = (res, sh1)" by (cases "handler_step env h req sh")
  with assms(2) Handling have "sh1 = sh'" by (cases res) (simp_all add: io_bind_def io_return_def)
  with handler_step_record(1) [OF h] show ?thesis by (simp add: Handling)
next
  case (Finishing out req)
  obtain n where "get_route_handler r (longest_prefix_match r (get_uri req)) = Inr n"
    using get_route_handler_ok [OF assms(1)] by blast
  then show ?thesis using assms(2) by (simp add: Finishing)
qed (use assms(2) in \<open>cases sh; auto simp: io_bind_def on_snd_def io_return_def split: prod.splits sum.splits\<close>)+

lemma pool_step_recorded:
  assumes "router_ok r" "pool_step env r p p'" "pool_recorded rec0 p"
  shows "pool_recorded rec0 p'"
  using assms(2)
proof (cases rule: pool_step.cases)
  case (take i req)
  then show ?thesis using assms(3) by (simp add: pool_recorded_def in_flight_Some)
next
  case (act i t t' sh')
  then show ?thesis using assms(3) task_step_act [OF act(4)] by (simp add: pool_recorded_def in_flight_Some)
next
  case (answer i t resp sh')
  then show ?thesis
    using assms(3) task_step_answer [OF answer(4)] in_flight_update [of i "threads p" None]
    by (simp add: pool_recorded_def ac_simps)
next
  case (throw i t e sh')
  then show ?thesis
    using assms(3) task_step_throw [OF assms(1) throw(4)] by (simp add: pool_recorded_def in_flight_Some)
qed

lemma pool_run_recorded:
  assumes "router_ok r"
  shows "pool_run env r p p' \<Longrightarrow> pool_recorded rec0 p \<Longrightarrow> pool_recorded rec0 p'"
  by (induction rule: rtranclp_induct) (auto dest: pool_step_recorded [OF assms])

lemma server_threads_recorded: "pool_recorded (fst sh) (server_threads n sh)"
  by (auto simp: pool_recorded_def server_threads_def intro!: in_flight_idle)

subsection \<open>Views can be lost\<close>

lemma reads_before_writes:
  assumes "meme_table sq rows" "table_ok (rows db)"
    and "r \<in> set (rows db)" "r ! 0 = c_string i" "r ! 4 = to_dec n" "int n < int_max"
  shows "\<exists>ra rb db1 db2 db3 db4.
    view_read sq i db = (Inr ra, db1) \<and> view_read sq i db1 = (Inr rb, db2) \<and>
    view_write sq ra db2 = (Inr (json_response (meme_json (r ! 1) (r ! 2) (r ! 3))), db3) \<and>
    view_write sq rb db3 = (Inr (json_response (meme_json (r ! 1) (r ! 2) (r ! 3))), db4) \<and>
    rows db4 = map (\<lambda>q. if q ! 0 = c_string i then q[4 := to_dec (Suc n)] else q) (rows db)"
proof -
  have row: "row_ok r" using assms(2,3) by (simp add: table_ok_def)
  have rd: "\<exists>db'. view_read sq i d = (Inr [r], db') \<and> rows db' = rows db" if d: "rows d = rows db" for d
  proof -
    have ok: "table_ok (rows d)" using assms(2) d by simp
    from assms(1) ok show ?thesis
    proof (cases rule: view_read_step [of sq rows d i])
      case (none db')
      have "c_string i \<in> dom (docs (rows d))" using assms(3,4) d by (auto simp: docs_dom)
      then show ?thesis using none(3) by (simp add: domIff)
    next
      case (one q db')
      from one(5) assms(4) have "q ! 0 = r ! 0" by simp
      with one_row [OF assms(2)] one(3) assms(3) d have "q = r" by simp
      then show ?thesis using one d by simp
    qed
  qed
  obtain db1 where db1: "view_read sq i db = (Inr [r], db1)" "rows db1 = rows db" using rd [OF refl] by (elim exE conjE)
  obtain db2 where db2: "view_read sq i db1 = (Inr [r], db2)" "rows db2 = rows db" using rd [OF db1(2)] by (elim exE conjE)
  note wr = view_write_step [of sq rows r n, OF assms(1) row assms(5,6), unfolded assms(4)]
  obtain db3 where db3: "view_write sq [r] db2 = (Inr (json_response (meme_json (r ! 1) (r ! 2) (r ! 3))), db3)"
    "rows db3 = map (\<lambda>q. if q ! 0 = c_string i then q[4 := to_dec (Suc n)] else q) (rows db2)"
    using wr [of db2] by (elim exE conjE)
  obtain db4 where db4: "view_write sq [r] db3 = (Inr (json_response (meme_json (r ! 1) (r ! 2) (r ! 3))), db4)"
    "rows db4 = map (\<lambda>q. if q ! 0 = c_string i then q[4 := to_dec (Suc n)] else q) (rows db3)"
    using wr [of db3] by (elim exE conjE)
  have "(\<lambda>q. if q ! 0 = c_string i then q[4 := v] else q) ((\<lambda>q. if q ! 0 = c_string i then q[4 := v] else q) q) =
      (if q ! 0 = c_string i then q[4 := v] else q)" for q and v :: string by simp
  then have "rows db4 = map (\<lambda>q. if q ! 0 = c_string i then q[4 := to_dec (Suc n)] else q) (rows db)"
    by (simp add: db4(2) db3(2) db2(2))
  with db1(1) db2(1) db3(1) db4(1) show ?thesis by (intro exI conjI)
qed

text \<open>
  C37: two threads that answer a GET for the same identifier at the same time can count one view: when
  the second reads the row before the first writes the counter, both answer with the document and the
  counter is increased by one, not by two.
\<close>

theorem concurrent_views_lost:
  assumes "meme_table (database env) rows" "table_ok (rows (snd (shared p)))"
    and "i < length (threads p)" "j < length (threads p)" "i \<noteq> j"
    and "threads p ! i = Some (Handling (Meme_handler h1) req1)" "view_target req1 = Some m"
    and "threads p ! j = Some (Handling (Meme_handler h2) req2)" "view_target req2 = Some m"
    and "q \<in> set (rows (snd (shared p)))" "q ! 0 = c_string m" "q ! 4 = to_dec n" "int n < int_max"
  shows "\<exists>p' out. pool_run env r p p' \<and> out = json_response (meme_json (q ! 1) (q ! 2) (q ! 3)) \<and>
    threads p' = (threads p)[i := Some (Recording out req1), j := Some (Recording out req2)] \<and>
    fst (shared p') = fst (shared p) \<and>
    rows (snd (shared p')) = map (\<lambda>t. if t ! 0 = c_string m then t[4 := to_dec (Suc n)] else t) (rows (snd (shared p)))"
proof -
  obtain rec w where sh: "shared p = (rec, w)" by (cases "shared p")
  then have world: "snd (shared p) = w" by simp
  let ?out = "json_response (meme_json (q ! 1) (q ! 2) (q ! 3))"
  obtain ra rb w1 w2 w3 w4 where parts: "view_read (database env) m w = (Inr ra, w1)" "view_read (database env) m w1 = (Inr rb, w2)"
      "view_write (database env) ra w2 = (Inr ?out, w3)" "view_write (database env) rb w3 = (Inr ?out, w4)"
    and rows: "rows w4 = map (\<lambda>t. if t ! 0 = c_string m then t[4 := to_dec (Suc n)] else t) (rows w)"
    using reads_before_writes [of "database env" rows w q m n, OF assms(1) assms(2,10) [unfolded world] assms(11-13)]
    by (elim exE conjE)
  have handle: "task_step env r (Handling (Meme_handler h) req) (rec, w) = (Inr (Inl (Viewing result req)), (rec, w'))"
    if "view_target req = Some m" "view_read (database env) m w = (Inr result, w')" for h req result w w'
    using that by (simp add: handler_step_def)
  have viewing: "task_step env r (Viewing result req) (rec, w) = (Inr (Inl (Recording out req)), (rec, w'))"
    if "view_write (database env) result w = (Inr out, w')" for result req out w w' using that by simp
  define at where "at a b v = p\<lparr>threads := (threads p)[i := Some a, j := Some b], shared := (rec, v)\<rparr>" for a b v
  have first: "pool_step env r (at a b v) (at a' b v')" if "task_step env r a (rec, v) = (Inr (Inl a'), (rec, v'))" for a b v a' v'
    using pool_step.act [of i "at a b v" a env r a' "(rec, v')"] assms(3-5) that
    by (simp add: at_def list_update_swap [of j i])
  have second: "pool_step env r (at a b v) (at a b' v')" if "task_step env r b (rec, v) = (Inr (Inl b'), (rec, v'))" for a b v b' v'
    using pool_step.act [of j "at a b v" b env r b' "(rec, v')"] assms(3-5) that by (simp add: at_def)
  have start: "at (Handling (Meme_handler h1) req1) (Handling (Meme_handler h2) req2) w = p"
  proof -
    have "(threads p)[i := threads p ! i, j := threads p ! j] = threads p" by simp
    then show ?thesis using sh unfolding assms(6,8) by (cases p) (simp add: at_def)
  qed
  let ?last = "at (Recording ?out req1) (Recording ?out req2) w4"
  note more = converse_rtranclp_into_rtranclp [where r = "pool_step env r"]
  have "pool_run env r p ?last"
    unfolding start [symmetric]
    by (rule more [OF first [OF handle [OF assms(7) parts(1)]] more [OF second [OF handle [OF assms(9) parts(2)]]
      more [OF first [OF viewing [OF parts(3)]] r_into_rtranclp [where r = "pool_step env r", OF second [OF viewing [OF parts(4)]]]]]])
  with rows show ?thesis by (intro exI [of _ ?last] exI [of _ ?out]) (simp add: at_def sh)
qed

definition two_views :: "string list list pool" where
  "two_views = (let t = Some (Handling (Meme_handler \<lparr>path_to_meme_templates = ''.'', path_to_memes = ''.''\<rparr>) sample_view)
     in \<lparr>threads = [t, t], shared = (new_recorder, sample_rows), answers = [], thrown = []\<rparr>)"

theorem concurrent_views_lost_witness:
  "\<exists>p'. pool_run list_env sample_router two_views p' \<and> map (\<lambda>r. r ! 4) (snd (shared p')) = [''42'']"
proof -
  let ?r = "[sample_id, ''a.jpg'', ''x'', ''y'', ''41'']"
  have id: "c_string sample_id = sample_id" by (rule uuid_clean(4) [OF sample_id_ok])
  have n: "?r ! 4 = to_dec 41" "to_dec (Suc 41) = ''42''" by code_simp+
  have target: "view_target sample_view = Some sample_id" by code_simp
  have row: "?r \<in> set (snd (shared two_views))" "?r ! 0 = c_string sample_id" "int 41 < int_max"
    and env: "database list_env = list_sqlite" and sh: "snd (shared two_views) = sample_rows"
    by (simp_all add: sample_rows_def two_views_def Let_def id int_max_def list_env_def)
  obtain h where t: "threads two_views ! 0 = Some (Handling (Meme_handler h) sample_view)"
    "threads two_views ! 1 = Some (Handling (Meme_handler h) sample_view)"
    by (simp add: two_views_def Let_def)
  have len: "0 < length (threads two_views)" "1 < length (threads two_views)" "(0::nat) \<noteq> 1"
    by (simp_all add: two_views_def Let_def)
  have tab: "meme_table (database list_env) (\<lambda>t. t)" "table_ok (snd (shared two_views))"
    unfolding env sh by (rule list_sqlite_table sample_rows_ok)+
  note lost = concurrent_views_lost [where rows = "\<lambda>t. t" and p = two_views and r = sample_router,
    OF tab len t(1) target t(2) target row(1,2) n(1) row(3)]
  then obtain p' where p': "pool_run list_env sample_router two_views p'"
    "snd (shared p') = map (\<lambda>t. if t ! 0 = c_string sample_id then t[4 := to_dec (Suc 41)] else t) (snd (shared two_views))"
    by (elim exE conjE) (rule that)
  have "map (\<lambda>r. r ! 4) (map (\<lambda>t. if t ! 0 = sample_id then t[4 := ''42''] else t) sample_rows) = [''42'']"
    by (simp add: sample_rows_def)
  then have "map (\<lambda>r. r ! 4) (snd (shared p')) = [''42'']" unfolding p'(2) n(2) id sh .
  with p'(1) show ?thesis by (intro exI conjI)
qed

end
