(* ===== verification/Locks.thy ===== *)
theory Locks
  imports Router_Props
begin

text \<open>
  The mutexes that threads share: the four of \<open>src/router.cc\<close> and the two of
  \<open>src/server_status_recorder.cc\<close>.

  For each operation, the sequence in which it locks and unlocks them and reads and writes the data
  that threads share, on the same branches as the operation itself. A \<open>lock_guard\<close> is \<open>guarded\<close>. The
  mutex that each handler object has is left out: an object serves one request, so no other thread can
  hold it. A thread is the list of the locks it holds and what it has still to do; \<open>lock_step\<close> lets any
  thread that can go on do so, and a mutex, which is not recursive, can only be taken when no thread
  holds it.

  The lemmas: threads that route requests never deadlock, since all lock in the order of \<open>lock_rank\<close>;
  registering the routes of a configuration locks against it, so that it must not run beside them; but
  whatever runs beside whatever, there is no data race.
\<close>

datatype lock = Route_map_lock | Header_lock | Config_lock | Log_lock | Response_list_lock | Prefix_list_lock

text \<open>
  The data: the routes, the default headers, the configuration, and the two lists of the recorder. The
  blocks that \<open>get_handler_config\<close> returns are shared with the configuration. What is never written
  after construction, the root of the server and the pointer to the configuration, is left out.
\<close>

datatype shared_data = Routes | Headers | Config | Responses | Prefixes

datatype lock_op = Lock lock | Unlock lock | Read shared_data | Write shared_data

definition guarded :: "lock \<Rightarrow> lock_op list \<Rightarrow> lock_op list" where
  "guarded l p = Lock l # p @ [Unlock l]"

subsection \<open>What the operations lock\<close>

definition recorder_locks :: "lock_op list" where
  "recorder_locks = guarded Response_list_lock [Write Responses]"

definition prefix_recorder_locks :: "lock_op list" where
  "prefix_recorder_locks = guarded Prefix_list_lock [Write Prefixes]"

text \<open>The size of the list of responses and the list itself.\<close>

definition get_responses_locks :: "lock_op list" where
  "get_responses_locks = guarded Response_list_lock [Read Responses]"

definition get_prefixes_locks :: "lock_op list" where
  "get_prefixes_locks = guarded Prefix_list_lock [Read Prefixes]"

definition register_route_locks :: "string \<Rightarrow> registry \<Rightarrow> lock_op list" where
  "register_route_locks u s = guarded Route_map_lock
     (Read Routes # (if um_find (route_map (fst s)) u = None then prefix_recorder_locks @ [Write Routes] else []))"

primrec register_locations_locks :: "string \<Rightarrow> config \<Rightarrow> registry \<Rightarrow> lock_op list" where
  "register_locations_locks handlerKey [] s = []"
| "register_locations_locks handlerKey (st # sts) s =
     (if 0 < length (tokens st) \<and> tokens st ! 0 = ''location''
      then (case vec_at (tokens st) 1 of
          Inl _ \<Rightarrow> []
        | Inr u \<Rightarrow> register_route_locks u s @ register_locations_locks handlerKey sts (register_route u handlerKey s))
      else register_locations_locks handlerKey sts s)"

primrec register_statements_locks :: "config \<Rightarrow> registry \<Rightarrow> lock_op list" where
  "register_statements_locks [] s = []"
| "register_statements_locks (st # sts) s =
     (if 1 < length (tokens st) \<and> tokens st ! 0 = ''handler''
      then (case child_block st of
          None \<Rightarrow> register_statements_locks sts s
        | Some rConfig \<Rightarrow> register_locations_locks (tokens st ! 1) rConfig s @
            (case register_locations (tokens st ! 1) rConfig s of
               Inl _ \<Rightarrow> []
             | Inr s' \<Rightarrow> register_statements_locks sts s'))
      else register_statements_locks sts s)"

definition register_routes_locks :: "registry \<Rightarrow> lock_op list" where
  "register_routes_locks s = guarded Config_lock (Read Config # register_statements_locks (config_of (fst s)) s)"

text \<open>Reading one default header, or all to apply them.\<close>

definition header_locks :: "lock_op list" where
  "header_locks = guarded Header_lock [Read Headers]"

definition register_default_header_locks :: "lock_op list" where
  "register_default_header_locks = guarded Header_lock [Read Headers, Write Headers]"

definition get_handler_config_locks :: "lock_op list" where
  "get_handler_config_locks = guarded Config_lock [Read Config]"

text \<open>\<open>validProxy\<close> reads the proxy's block when the lock of the configuration is free again.\<close>

definition get_route_handler_locks :: "router \<Rightarrow> string \<Rightarrow> lock_op list" where
  "get_route_handler_locks r u = guarded Route_map_lock
     (Read Routes # (if um_find (route_map r) u = None then get_handler_config_locks @ [Read Config] else []))"

definition longest_prefix_match_locks :: "lock_op list" where
  "longest_prefix_match_locks = guarded Route_map_lock [Read Routes]"

text \<open>The constructor of the handler reads its block, also without the lock.\<close>

definition select_handler_locks :: "router \<Rightarrow> string \<Rightarrow> lock_op list" where
  "select_handler_locks r u =
     longest_prefix_match_locks @ get_route_handler_locks r (longest_prefix_match r u) @ get_handler_config_locks @
     [Read Config]"

text \<open>Of the handlers only the one of the status page uses the recorder: its size and both lists.\<close>

fun handle_request_locks :: "handler \<Rightarrow> lock_op list" where
  "handle_request_locks Status_handler = get_responses_locks @ get_responses_locks @ get_prefixes_locks"
| "handle_request_locks h = []"

text \<open>
  A request that throws does so when its handler is constructed or runs. The handlers that throw use
  none of these locks, so it has locked what the selection does.
\<close>

definition route_request_locks :: "router \<Rightarrow> bool \<Rightarrow> handler \<Rightarrow> string \<Rightarrow> lock_op list" where
  "route_request_locks r throws h u = select_handler_locks r u @
     (if throws then []
      else handle_request_locks h @ recorder_locks @
        guarded Log_lock (longest_prefix_match_locks @ get_route_handler_locks r (longest_prefix_match r u)) @
        header_locks)"

lemmas lock_defs = guarded_def recorder_locks_def prefix_recorder_locks_def get_responses_locks_def
  get_prefixes_locks_def header_locks_def register_default_header_locks_def get_handler_config_locks_def get_route_handler_locks_def longest_prefix_match_locks_def select_handler_locks_def
  route_request_locks_def

subsection \<open>Threads\<close>

type_synonym lock_thread = "lock list \<times> lock_op list"

inductive lock_step :: "lock_thread list \<Rightarrow> lock_thread list \<Rightarrow> bool" where
  lock: "i < length ts \<Longrightarrow> ts ! i = (held, Lock l # p) \<Longrightarrow> \<forall>t\<in>set ts. l \<notin> set (fst t) \<Longrightarrow>
     lock_step ts (ts[i := (l # held, p)])"
| unlock: "i < length ts \<Longrightarrow> ts ! i = (held, Unlock l # p) \<Longrightarrow>
     lock_step ts (ts[i := (remove1 l held, p)])"
| data: "i < length ts \<Longrightarrow> ts ! i = (held, a # p) \<Longrightarrow> a = Read d \<or> a = Write d \<Longrightarrow>
     lock_step ts (ts[i := (held, p)])"

definition finished :: "lock_thread list \<Rightarrow> bool" where
  "finished ts \<longleftrightarrow> (\<forall>t\<in>set ts. t = ([], []))"

subsection \<open>The order of the locks\<close>

fun lock_rank :: "lock \<Rightarrow> nat" where
  "lock_rank Log_lock = 0"
| "lock_rank Route_map_lock = 1"
| "lock_rank Config_lock = 2"
| "lock_rank Header_lock = 3"
| "lock_rank Response_list_lock = 4"
| "lock_rank Prefix_list_lock = 5"

text \<open>A program that only takes locks above those it holds, frees what it holds, and ends with none.\<close>

fun lock_ordered :: "lock list \<Rightarrow> lock_op list \<Rightarrow> bool" where
  "lock_ordered held [] \<longleftrightarrow> held = []"
| "lock_ordered held (Lock l # p) \<longleftrightarrow> (\<forall>k\<in>set held. lock_rank k < lock_rank l) \<and> lock_ordered (l # held) p"
| "lock_ordered held (Unlock l # p) \<longleftrightarrow> l \<in> set held \<and> lock_ordered (remove1 l held) p"
| "lock_ordered held (Read d # p) \<longleftrightarrow> lock_ordered held p"
| "lock_ordered held (Write d # p) \<longleftrightarrow> lock_ordered held p"

definition all_ordered :: "lock_thread list \<Rightarrow> bool" where
  "all_ordered ts \<longleftrightarrow> (\<forall>(held, p)\<in>set ts. lock_ordered held p)"

lemma lock_ordered_append: "lock_ordered held p \<Longrightarrow> lock_ordered [] q \<Longrightarrow> lock_ordered held (p @ q)"
  by (induction held p rule: lock_ordered.induct) auto

lemma route_request_ordered: "lock_ordered [] (route_request_locks r throws h u)"
  by (cases h) (auto simp: lock_defs)

lemma requests_ordered: "lock_ordered [] (concat (map (\<lambda>(throws, h, u). route_request_locks r throws h u) qs))"
  by (induction qs) (auto intro: lock_ordered_append route_request_ordered)

lemma in_set_update: "t \<in> set (ts[i := x]) \<Longrightarrow> t = x \<or> t \<in> set ts"
  using set_update_subset_insert by fastforce

lemma lock_step_ordered: "lock_step ts ts' \<Longrightarrow> all_ordered ts \<Longrightarrow> all_ordered ts'"
proof (induction rule: lock_step.induct)
  case (lock i ts held l p)
  then have "(held, Lock l # p) \<in> set ts" by (metis nth_mem)
  with lock have "lock_ordered (l # held) p" by (auto simp: all_ordered_def)
  with lock show ?case by (auto simp: all_ordered_def dest!: in_set_update)
next
  case (unlock i ts held l p)
  then have "(held, Unlock l # p) \<in> set ts" by (metis nth_mem)
  with unlock have "lock_ordered (remove1 l held) p" by (auto simp: all_ordered_def)
  with unlock show ?case by (auto simp: all_ordered_def dest!: in_set_update)
next
  case (data i ts held a p d)
  then have "(held, a # p) \<in> set ts" by (metis nth_mem)
  with data have "lock_ordered held p" by (auto simp: all_ordered_def)
  with data show ?case by (auto simp: all_ordered_def dest!: in_set_update)
qed

lemma others_enabled:
  assumes "(held, a # p) \<in> set ts" "\<And>l. a \<noteq> Lock l"
  shows "\<exists>ts'. lock_step ts ts'"
proof -
  obtain i where i: "i < length ts" "ts ! i = (held, a # p)" using assms(1) by (auto simp: in_set_conv_nth)
  then show ?thesis using assms(2) by (cases a) (auto intro: lock_step.unlock lock_step.data)
qed

text \<open>
  Progress: of the threads that wait for a lock take one that waits for the highest. The thread that
  holds that lock is not finished, so it waits too, for a lock that is higher still.
\<close>

lemma ordered_progress:
  assumes "all_ordered ts" "\<not> finished ts"
  shows "\<exists>ts'. lock_step ts ts'"
proof (rule ccontr)
  assume stuck: "\<not> (\<exists>ts'. lock_step ts ts')"
  have waits: "\<exists>l q. p = Lock l # q" if "(held, p) \<in> set ts" "(held, p) \<noteq> ([], [])" for held p
  proof (cases p)
    case Nil
    then show ?thesis using that assms(1) by (auto simp: all_ordered_def)
  next
    case (Cons a q)
    then show ?thesis using that stuck others_enabled by (cases a) blast+
  qed
  define W where "W = {l. \<exists>held p. (held, Lock l # p) \<in> set ts}"
  obtain held p where "(held, p) \<in> set ts" "(held, p) \<noteq> ([], [])" using assms(2) by (auto simp: finished_def)
  with waits obtain l0 where "l0 \<in> W" unfolding W_def by blast
  moreover have "finite W"
  proof (rule finite_subset)
    show "W \<subseteq> (\<lambda>(held, p). case hd p of Lock l \<Rightarrow> l) ` set ts" unfolding W_def by force
  qed simp
  ultimately have "Max (lock_rank ` W) \<in> lock_rank ` W" "\<And>k. k \<in> W \<Longrightarrow> lock_rank k \<le> Max (lock_rank ` W)"
    by (auto intro!: Max_in)
  then obtain l where l: "l \<in> W" "\<And>k. k \<in> W \<Longrightarrow> lock_rank k \<le> lock_rank l" by auto
  then obtain held p where w: "(held, Lock l # p) \<in> set ts" unfolding W_def by blast
  have "\<exists>t\<in>set ts. l \<in> set (fst t)"
  proof (rule ccontr)
    assume "\<not> (\<exists>t\<in>set ts. l \<in> set (fst t))"
    moreover obtain i where "i < length ts" "ts ! i = (held, Lock l # p)" using w by (auto simp: in_set_conv_nth)
    ultimately have "lock_step ts (ts[i := (l # held, p)])" by (intro lock_step.lock) auto
    with stuck show False by blast
  qed
  then obtain held' p' where h: "(held', p') \<in> set ts" "l \<in> set held'" by auto
  then obtain l' q where q: "p' = Lock l' # q" using waits by fastforce
  then have "l' \<in> W" using h unfolding W_def by blast
  moreover have "lock_rank l < lock_rank l'" using h q assms(1) by (auto simp: all_ordered_def)
  ultimately show False using l(2) [of l'] by simp
qed

lemma lock_run_ordered: "lock_step\<^sup>*\<^sup>* ts ts' \<Longrightarrow> all_ordered ts \<Longrightarrow> all_ordered ts'"
  by (induction rule: rtranclp_induct) (auto intro: lock_step_ordered)

subsection \<open>Mutual exclusion and the end\<close>

definition exclusive :: "lock_thread list \<Rightarrow> bool" where
  "exclusive ts \<longleftrightarrow> distinct (concat (map fst ts))"

definition ops_left :: "lock_thread list \<Rightarrow> nat" where
  "ops_left ts = sum_list (map (\<lambda>t. length (snd t)) ts)"

lemma update_split:
  assumes "i < length ts" "ts ! i = t"
  obtains xs ys where "ts = xs @ t # ys" "\<And>x. ts[i := x] = xs @ x # ys"
proof
  show "ts = take i ts @ t # drop (Suc i) ts" using id_take_nth_drop [OF assms(1)] assms(2) by simp
  show "ts[i := x] = take i ts @ x # drop (Suc i) ts" for x using assms(1) by (rule upd_conv_take_nth_drop)
qed

lemma lock_step_exclusive: "lock_step ts ts' \<Longrightarrow> exclusive ts \<Longrightarrow> exclusive ts'"
proof (induction rule: lock_step.induct)
  case (lock i ts held l p)
  obtain xs ys where ts: "ts = xs @ (held, Lock l # p) # ys" "\<And>x. ts[i := x] = xs @ x # ys"
    using update_split [OF lock(1,2)] by blast
  have "l \<notin> set (concat (map fst ts))" using lock(3) by auto
  then show ?case using lock(4) unfolding exclusive_def ts(2) unfolding ts(1) by auto
next
  case (unlock i ts held l p)
  obtain xs ys where ts: "ts = xs @ (held, Unlock l # p) # ys" "\<And>x. ts[i := x] = xs @ x # ys"
    using update_split [OF unlock(1,2)] by blast
  show ?case using unlock(3) notin_set_remove1 [of _ held l]
    unfolding exclusive_def ts(2) unfolding ts(1) by (auto dest: notin_set_remove1)
next
  case (data i ts held a p d)
  obtain xs ys where ts: "ts = xs @ (held, a # p) # ys" "\<And>x. ts[i := x] = xs @ x # ys"
    using update_split [OF data(1,2)] by blast
  show ?case using data(4) unfolding exclusive_def ts(2) unfolding ts(1) by simp
qed

lemma lock_run_exclusive: "lock_step\<^sup>*\<^sup>* ts ts' \<Longrightarrow> exclusive ts \<Longrightarrow> exclusive ts'"
  by (induction rule: rtranclp_induct) (auto intro: lock_step_exclusive)

lemma ops_left_update:
  assumes "i < length ts" "ts ! i = (held, x # p)"
  shows "ops_left (ts[i := (held', p)]) < ops_left ts"
proof -
  obtain xs ys where ts: "ts = xs @ (held, x # p) # ys" "\<And>y. ts[i := y] = xs @ y # ys"
    using update_split [OF assms] by blast
  show ?thesis unfolding ts(2) unfolding ts(1) by (simp add: ops_left_def)
qed

lemma lock_step_left: "lock_step ts ts' \<Longrightarrow> ops_left ts' < ops_left ts"
  by (induction rule: lock_step.induct) (auto intro: ops_left_update)

lemma lock_completes: "all_ordered ts \<Longrightarrow> \<exists>ts'. lock_step\<^sup>*\<^sup>* ts ts' \<and> finished ts'"
proof (induction "ops_left ts" arbitrary: ts rule: less_induct)
  case less
  show ?case
  proof (cases "finished ts")
    case False
    then obtain ts1 where st: "lock_step ts ts1" using ordered_progress [OF less(2)] by blast
    with less lock_step_left [OF st] lock_step_ordered [OF st] obtain ts' where "lock_step\<^sup>*\<^sup>* ts1 ts'" "finished ts'" by blast
    with st show ?thesis by (meson converse_rtranclp_into_rtranclp)
  qed blast
qed

text \<open>
  C17: any number of threads, each routing any number of requests to any handlers, whether they throw or
  not, never deadlock: wherever they are, no lock has two holders, some thread can go on unless all are
  done, and all can come to be done, with every lock free.
\<close>

theorem requests_never_deadlock:
  assumes "\<forall>t\<in>set ts0. \<exists>qs. t = ([], concat (map (\<lambda>(throws, h, u). route_request_locks r throws h u) qs))"
    and "lock_step\<^sup>*\<^sup>* ts0 ts"
  shows "distinct (concat (map fst ts)) \<and> (finished ts \<or> (\<exists>ts'. lock_step ts ts')) \<and>
    (\<exists>ts'. lock_step\<^sup>*\<^sup>* ts ts' \<and> finished ts')"
proof -
  have "all_ordered ts0" using assms(1) requests_ordered [of r] by (fastforce simp: all_ordered_def)
  then have ord: "all_ordered ts" by (rule lock_run_ordered [OF assms(2)])
  have none: "concat (map fst ts0) = []" using assms(1) by (auto simp: concat_eq_Nil_conv)
  have "exclusive ts0" unfolding exclusive_def none by simp
  from lock_run_exclusive [OF assms(2) this] show ?thesis
    using ordered_progress [OF ord] lock_completes [OF ord] unfolding exclusive_def by blast
qed

theorem requests_never_deadlock_witness:
  "\<exists>ts'. lock_step\<^sup>*\<^sup>* (replicate 4 ([], concat (map (\<lambda>(throws, h, u). route_request_locks sample_router throws h u)
     [(False, Echo_handler, ''/echo''), (False, Status_handler, ''/x'')]))) ts' \<and> finished ts'"
proof -
  let ?ts = "replicate 4 ([], concat (map (\<lambda>(throws, h, u). route_request_locks sample_router throws h u)
     [(False, Echo_handler, ''/echo''), (False, Status_handler, ''/x'')]))"
  have "\<forall>t\<in>set ?ts. \<exists>qs. t = ([], concat (map (\<lambda>(throws, h, u). route_request_locks sample_router throws h u) qs))"
    by (intro ballI exI [of _ "[(False, Echo_handler, ''/echo''), (False, Status_handler, ''/x'')]"]) (simp only: in_set_replicate)
  from requests_never_deadlock [OF this rtranclp.rtrancl_refl] show ?thesis by blast
qed

subsection \<open>Registration\<close>

lemma register_locations_start:
  "register_locations_locks k sts s = [] \<or> (\<exists>p. register_locations_locks k sts s = Lock Route_map_lock # p)"
  by (induction sts arbitrary: s) (auto simp: register_route_locks_def guarded_def split: sum.split)

lemma register_statements_start:
  "register_statements_locks sts s = [] \<or> (\<exists>p. register_statements_locks sts s = Lock Route_map_lock # p)"
proof (induction sts arbitrary: s)
  case (Cons st sts)
  show ?case
  proof (cases "child_block st")
    case (Some b)
    then show ?thesis
      using Cons register_locations_start [of "tokens st ! 1" b s]
      by (cases "register_locations (tokens st ! 1) b s") (auto, metis+)
  qed (use Cons in simp)
qed simp

text \<open>
  C40: a thread that registers the routes of a configuration with at least one route beside one that
  routes a request for a URI without a route can deadlock: each holds the lock that the other waits
  for.
\<close>

theorem registration_can_deadlock:
  assumes "register_statements_locks (config_of r) (r, rec) \<noteq> []"
    and "um_find (route_map r) (longest_prefix_match r u) = None"
  shows "\<exists>ts. lock_step\<^sup>*\<^sup>* [([], register_routes_locks (r, rec)), ([], route_request_locks r throws h u)] ts \<and>
    \<not> finished ts \<and> (\<nexists>ts'. lock_step ts ts')"
proof -
  obtain p where p: "register_routes_locks (r, rec) = Lock Config_lock # Read Config # Lock Route_map_lock # p"
    using register_statements_start [of "config_of r" "(r, rec)"] assms(1)
    by (auto simp: register_routes_locks_def guarded_def)
  obtain q where q: "route_request_locks r throws h u =
      Lock Route_map_lock # Read Routes # Unlock Route_map_lock # Lock Route_map_lock # Read Routes # Lock Config_lock # q"
    using assms(2) by (simp add: lock_defs)
  define ts where "ts held p1 held' p2 = [(held :: lock list, p1 :: lock_op list), (held' :: lock list, p2 :: lock_op list)]" for held p1 held' p2
  let ?r = "route_request_locks r throws h u"
  note more = converse_rtranclp_into_rtranclp [where r = lock_step]
  have s1: "lock_step (ts [] (Lock Config_lock # a) [] ?r) (ts [Config_lock] a [] ?r)"
    "lock_step (ts [Config_lock] (Read Config # a) [] ?r) (ts [Config_lock] a [] ?r)" for a
    using lock_step.lock [of 0 "ts [] (Lock Config_lock # a) [] ?r"] lock_step.data [of 0 "ts [Config_lock] (Read Config # a) [] ?r"]
    by (simp_all add: ts_def)
  have second: "lock_step (ts a b c (Lock l # d)) (ts a b (l # c) d)" if "l \<notin> set a" "l \<notin> set c" for a b c d l
    using lock_step.lock [of 1 "ts a b c (Lock l # d)"] that by (simp add: ts_def)
  have free: "lock_step (ts a b c (Unlock l # d)) (ts a b (remove1 l c) d)" for a b c d l
    using lock_step.unlock [of 1 "ts a b c (Unlock l # d)"] by (simp add: ts_def)
  have reads: "lock_step (ts a b c (Read e # d)) (ts a b c d)" for a b c d e
    using lock_step.data [of 1 "ts a b c (Read e # d)"] by (simp add: ts_def)
  let ?stuck = "ts [Config_lock] (Lock Route_map_lock # p) [Route_map_lock] (Lock Config_lock # q)"
  have "lock_step\<^sup>*\<^sup>* (ts [Config_lock] (Lock Route_map_lock # p) [] ?r) ?stuck"
    unfolding q by (rule more, rule second, simp, simp, rule more, rule reads, rule more, rule free, simp,
      rule more, rule second, simp, simp, rule r_into_rtranclp, rule reads)
  from more [OF s1(1) more [OF s1(2) this]]
  have "lock_step\<^sup>*\<^sup>* (ts [] (register_routes_locks (r, rec)) [] ?r) ?stuck" unfolding p .
  moreover have "\<nexists>ts'. lock_step ?stuck ts'"
    by (auto simp: ts_def nth_Cons' elim!: lock_step.cases split: if_splits)
  ultimately show ?thesis by (auto simp: ts_def finished_def)
qed

theorem registration_can_deadlock_witness:
  "\<exists>ts. lock_step\<^sup>*\<^sup>* [([], register_routes_locks (sample_router, new_recorder)),
      ([], route_request_locks sample_router False Default_handler ''/x'')] ts \<and> \<not> finished ts"
proof -
  have "register_statements_locks (config_of sample_router) (sample_router, new_recorder) \<noteq> []"
    "um_find (route_map sample_router) (longest_prefix_match sample_router ''/x'') = None" by code_simp+
  from registration_can_deadlock [OF this] show ?thesis by blast
qed

subsection \<open>Data races\<close>

text \<open>The calls with which threads use what they share, each on a state of its own.\<close>

datatype shared_call =
    Register_route string registry
  | Register_routes_from_config registry
  | Register_default_header
  | Get_header
  | Get_route_handler router string
  | Get_handler_config
  | Longest_prefix_match
  | Route_request router bool handler string
  | Request_recorder
  | Prefix_recorder
  | Get_responses
  | Get_prefixes

fun call_locks :: "shared_call \<Rightarrow> lock_op list" where
  "call_locks (Register_route u s) = register_route_locks u s"
| "call_locks (Register_routes_from_config s) = register_routes_locks s"
| "call_locks Register_default_header = register_default_header_locks"
| "call_locks Get_header = header_locks"
| "call_locks (Get_route_handler r u) = get_route_handler_locks r u"
| "call_locks Get_handler_config = get_handler_config_locks"
| "call_locks Longest_prefix_match = longest_prefix_match_locks"
| "call_locks (Route_request r throws h u) = route_request_locks r throws h u"
| "call_locks Request_recorder = recorder_locks"
| "call_locks Prefix_recorder = prefix_recorder_locks"
| "call_locks Get_responses = get_responses_locks"
| "call_locks Get_prefixes = get_prefixes_locks"

text \<open>What a thread is about to read, \<open>False\<close>, or to write, \<open>True\<close>.\<close>

fun next_access :: "lock_thread \<Rightarrow> (bool \<times> shared_data) option" where
  "next_access (held, Read d # p) = Some (False, d)"
| "next_access (held, Write d # p) = Some (True, d)"
| "next_access (held, p) = None"

text \<open>One thread is about to write what another is about to read or write.\<close>

definition data_race :: "lock_thread list \<Rightarrow> bool" where
  "data_race ts \<longleftrightarrow> (\<exists>i<length ts. \<exists>j<length ts. i \<noteq> j \<and>
     (case next_access (ts ! i) of
        Some (True, d) \<Rightarrow> next_access (ts ! j) \<in> {Some (False, d), Some (True, d)}
      | _ \<Rightarrow> False))"

text \<open>The configuration is never written; everything else is used under its lock.\<close>

fun data_lock :: "shared_data \<Rightarrow> lock" where
  "data_lock Routes = Route_map_lock"
| "data_lock Headers = Header_lock"
| "data_lock Config = Config_lock"
| "data_lock Responses = Response_list_lock"
| "data_lock Prefixes = Prefix_list_lock"

fun well_locked :: "lock list \<Rightarrow> lock_op list \<Rightarrow> bool" where
  "well_locked held [] \<longleftrightarrow> True"
| "well_locked held (Lock l # p) \<longleftrightarrow> well_locked (l # held) p"
| "well_locked held (Unlock l # p) \<longleftrightarrow> well_locked (remove1 l held) p"
| "well_locked held (Read d # p) \<longleftrightarrow> (d = Config \<or> data_lock d \<in> set held) \<and> well_locked held p"
| "well_locked held (Write d # p) \<longleftrightarrow> d \<noteq> Config \<and> data_lock d \<in> set held \<and> well_locked held p"

fun locks_after :: "lock list \<Rightarrow> lock_op list \<Rightarrow> lock list" where
  "locks_after held [] = held"
| "locks_after held (Lock l # p) = locks_after (l # held) p"
| "locks_after held (Unlock l # p) = locks_after (remove1 l held) p"
| "locks_after held (a # p) = locks_after held p"

lemma well_locked_append: "well_locked held (p @ q) \<longleftrightarrow> well_locked held p \<and> well_locked (locks_after held p) q"
  "locks_after held (p @ q) = locks_after (locks_after held p) q"
  by (induction held p rule: well_locked.induct) auto

text \<open>Code that is well locked wherever the locks \<open>ls\<close> are held, and leaves the locks as they were.\<close>

definition safe_under :: "lock list \<Rightarrow> lock_op list \<Rightarrow> bool" where
  "safe_under ls p \<longleftrightarrow> (\<forall>held. set ls \<subseteq> set held \<longrightarrow> well_locked held p \<and> locks_after held p = held)"

named_theorems safe_intros

lemma safe_append [safe_intros]: "safe_under ls p \<Longrightarrow> safe_under ls q \<Longrightarrow> safe_under ls (p @ q)"
  by (simp add: safe_under_def well_locked_append)

lemma safe_guarded [safe_intros]: "safe_under (l # ls) p \<Longrightarrow> safe_under ls (guarded l p)"
  by (auto simp: safe_under_def guarded_def well_locked_append subset_insertI2)

lemma safe_ops [safe_intros]: "safe_under ls []"
  "d = Config \<or> data_lock d \<in> set ls \<Longrightarrow> safe_under ls p \<Longrightarrow> safe_under ls (Read d # p)"
  "d \<noteq> Config \<Longrightarrow> data_lock d \<in> set ls \<Longrightarrow> safe_under ls p \<Longrightarrow> safe_under ls (Write d # p)"
  by (auto simp: safe_under_def)

lemma safe_if [safe_intros]: "(b \<Longrightarrow> safe_under ls p) \<Longrightarrow> (\<not> b \<Longrightarrow> safe_under ls q) \<Longrightarrow> safe_under ls (if b then p else q)"
  by simp

lemma safe_recorder [safe_intros]: "safe_under ls recorder_locks" "safe_under ls prefix_recorder_locks"
  "safe_under ls get_responses_locks" "safe_under ls get_prefixes_locks"
  unfolding recorder_locks_def prefix_recorder_locks_def get_responses_locks_def get_prefixes_locks_def
  by (intro safe_intros; simp)+

lemma safe_router [safe_intros]: "safe_under ls header_locks" "safe_under ls register_default_header_locks"
  "safe_under ls get_handler_config_locks" "safe_under ls longest_prefix_match_locks"
  unfolding header_locks_def register_default_header_locks_def get_handler_config_locks_def longest_prefix_match_locks_def
  by (intro safe_intros; simp)+

lemma safe_get_route_handler [safe_intros]: "safe_under ls (get_route_handler_locks r u)"
  unfolding get_route_handler_locks_def by (intro safe_intros; simp)

lemma safe_handle_request [safe_intros]: "safe_under ls (handle_request_locks h)"
  by (cases h) (auto intro!: safe_intros)

lemma safe_route_request [safe_intros]: "safe_under ls (route_request_locks r throws h u)"
  unfolding route_request_locks_def select_handler_locks_def by (intro safe_intros; simp)

lemma safe_register_route [safe_intros]: "safe_under ls (register_route_locks u s)"
  unfolding register_route_locks_def by (intro safe_intros; simp)

lemma safe_register_locations [safe_intros]: "safe_under ls (register_locations_locks k sts s)"
  by (induction sts arbitrary: s) (simp_all add: safe_intros split: sum.split)

lemma safe_register_statements [safe_intros]: "safe_under ls (register_statements_locks sts s)"
  by (induction sts arbitrary: s) (simp_all add: safe_intros split: option.split sum.split)

lemma safe_register_routes [safe_intros]: "safe_under ls (register_routes_locks s)"
  unfolding register_routes_locks_def by (intro safe_intros; simp)

lemma safe_call [safe_intros]: "safe_under ls (call_locks c)"
  by (cases c) (auto intro: safe_intros)

lemma safe_calls: "safe_under ls (concat (map call_locks cs))"
  by (induction cs) (auto intro: safe_intros)

definition all_locked :: "lock_thread list \<Rightarrow> bool" where
  "all_locked ts \<longleftrightarrow> (\<forall>(held, p)\<in>set ts. well_locked held p)"

lemma lock_step_locked: "lock_step ts ts' \<Longrightarrow> all_locked ts \<Longrightarrow> all_locked ts'"
proof (induction rule: lock_step.induct)
  case (lock i ts held l p)
  then have "well_locked held (Lock l # p)" using nth_mem [OF lock(1)] by (auto simp: all_locked_def)
  with lock show ?case by (auto simp: all_locked_def dest!: in_set_update)
next
  case (unlock i ts held l p)
  then have "well_locked held (Unlock l # p)" using nth_mem [OF unlock(1)] by (auto simp: all_locked_def)
  with unlock show ?case by (auto simp: all_locked_def dest!: in_set_update)
next
  case (data i ts held a p d)
  then have "well_locked held (a # p)" using nth_mem [OF data(1)] by (auto simp: all_locked_def)
  with data show ?case by (auto simp: all_locked_def dest!: in_set_update)
qed

lemma lock_run_locked: "lock_step\<^sup>*\<^sup>* ts ts' \<Longrightarrow> all_locked ts \<Longrightarrow> all_locked ts'"
  by (induction rule: rtranclp_induct) (auto intro: lock_step_locked)

lemma exclusive_holders:
  assumes "exclusive ts" "i < length ts" "j < length ts" "i \<noteq> j" "l \<in> set (fst (ts ! i))"
  shows "l \<notin> set (fst (ts ! j))"
proof -
  have "distinct (concat (map fst xs)) \<Longrightarrow> i < length xs \<Longrightarrow> j < length xs \<Longrightarrow> i < j \<Longrightarrow>
      set (fst (xs ! i)) \<inter> set (fst (xs ! j)) = {}" for xs :: "lock_thread list" and i j
  proof (induction xs arbitrary: i j)
    case (Cons x xs)
    show ?case
    proof (cases i)
      case 0
      with Cons.prems obtain j' where j: "j = Suc j'" "xs ! j' \<in> set xs" by (cases j) auto
      have "set (fst x) \<inter> (\<Union>a\<in>set xs. set (fst a)) = {}" using Cons.prems(1) by simp
      then show ?thesis using j 0 by fastforce
    next
      case (Suc i')
      with Cons.prems obtain j' where "j = Suc j'" by (cases j) auto
      then show ?thesis using Cons Suc by simp
    qed
  qed simp
  from this [of ts i j] this [of ts j i] assms show ?thesis unfolding exclusive_def by (cases "i < j") auto
qed

text \<open>What a thread is about to use: the configuration, to read it, or something whose lock it holds.\<close>

lemma next_access_locked:
  assumes "all_locked ts" "i < length ts" "next_access (ts ! i) = Some (w, d)"
  shows "(d = Config \<and> \<not> w) \<or> (d \<noteq> Config \<and> data_lock d \<in> set (fst (ts ! i)))"
proof -
  obtain held p where t: "ts ! i = (held, p)" by (cases "ts ! i")
  then have "well_locked held p" using assms(1) nth_mem [OF assms(2)] by (auto simp: all_locked_def)
  then show ?thesis using assms(3) by (cases "(held, p)" rule: next_access.cases) (auto simp: t)
qed

lemma locked_no_race:
  assumes "all_locked ts" "exclusive ts"
  shows "\<not> data_race ts"
proof
  assume "data_race ts"
  then obtain i j where ij: "i < length ts" "j < length ts" "i \<noteq> j"
      and race: "case next_access (ts ! i) of
        Some (True, d) \<Rightarrow> next_access (ts ! j) \<in> {Some (False, d), Some (True, d)} | _ \<Rightarrow> False"
    unfolding data_race_def by blast
  from race obtain d w where use: "next_access (ts ! i) = Some (True, d)" "next_access (ts ! j) = Some (w, d)"
    by (auto split: option.splits prod.splits bool.splits)
  have "data_lock d \<in> set (fst (ts ! i))" "d \<noteq> Config"
    using next_access_locked [OF assms(1) ij(1) use(1)] by auto
  with exclusive_holders [OF assms(2) ij] next_access_locked [OF assms(1) ij(2) use(2)] show False by simp
qed

text \<open>
  C16: there is no data race: whatever calls any number of threads make to the router and the recorder,
  requests and registration mixed, wherever they are, no thread is about to write the routes, the
  headers, the configuration or a list of the recorder while another is about to read or write it.
\<close>

theorem no_data_races:
  assumes "\<forall>t\<in>set ts0. \<exists>calls. t = ([], concat (map call_locks calls))" and "lock_step\<^sup>*\<^sup>* ts0 ts"
  shows "\<not> data_race ts"
proof -
  have "all_locked ts0" using assms(1) safe_calls [of "[]"] by (fastforce simp: all_locked_def safe_under_def)
  then have locked: "all_locked ts" by (rule lock_run_locked [OF assms(2)])
  have none: "concat (map fst ts0) = []" using assms(1) by (auto simp: concat_eq_Nil_conv)
  have "exclusive ts0" unfolding exclusive_def none by simp
  from locked_no_race [OF locked lock_run_exclusive [OF assms(2) this]] show ?thesis .
qed

text \<open>A thread records a request while another is about to read the list of them.\<close>

theorem no_data_races_witness:
  "\<exists>ts. lock_step\<^sup>*\<^sup>* [([], call_locks Request_recorder), ([], call_locks Get_responses)] ts \<and>
     next_access (ts ! 0) = Some (True, Responses) \<and> \<not> data_race ts"
proof -
  let ?ts = "[([], call_locks Request_recorder), ([], call_locks Get_responses)]"
  let ?ts' = "[([Response_list_lock], [Write Responses, Unlock Response_list_lock]), ([], call_locks Get_responses)]"
  have "\<forall>t\<in>set ?ts. \<exists>calls. t = ([], concat (map call_locks calls))"
    by (auto intro: exI [of _ "[Request_recorder]"] exI [of _ "[Get_responses]"])
  moreover have run: "lock_step\<^sup>*\<^sup>* ?ts ?ts'"
    using lock_step.lock [of 0 ?ts "[]" Response_list_lock] by (intro r_into_rtranclp) (simp add: lock_defs)
  ultimately have "\<not> data_race ?ts'" by (rule no_data_races)
  with run show ?thesis by (intro exI [of _ ?ts']) simp
qed

end
