(* ===== verification/Concurrent_Server.thy ===== *)
theory Concurrent_Server
  imports Thread_Pool
begin

text \<open>
  The server with all its threads: accepting, the callbacks of all sessions, and the actions of the
  requests they route, interleaved.

  A thread is idle, \<open>None\<close>, or routes a request of a session, \<open>Some (i, task)\<close>, in the actions of
  \<open>Thread_Pool\<close>, of which there is one for each access to what threads share. The other callbacks touch
  one session only, which no other thread has, and are one step each; they need an idle thread. The
  main thread creates the threads one after the other, while those that exist already run callbacks. A
  fault other than an exception is no step here: \<open>Concurrent_Faults\<close> says which end the process, and a
  thread whose next action is \<open>Blocked\<close> stays where it is.

  The lemmas: the life cycle of sessions and of the accept loop when callbacks overlap; every answer is
  recorded once, since the threads alone are a run of the pool of \<open>Thread_Pool\<close>; and the table of memes
  stays well formed.
\<close>

type_synonym worker = "(nat \<times> task) option"

record 'w running =
  server_of :: server
  shared_of :: "'w shared"
  created :: nat
  workers :: "worker list"

text \<open>\<open>run\<close> has places for all threads; the first \<open>created\<close> of them exist.\<close>

definition run_server :: "server \<Rightarrow> 'w shared \<Rightarrow> 'w running" where
  "run_server srv sh =
     \<lparr>server_of = srv, shared_of = sh, created = 0, workers = replicate (unat (thread_count srv)) None\<rparr>"

definition put_session :: "nat \<Rightarrow> session \<Rightarrow> server \<Rightarrow> server" where
  "put_session i s srv = srv\<lparr>sessions := (sessions srv)[i := s]\<rparr>"

definition idle :: "'w running \<Rightarrow> bool" where
  "idle p \<longleftrightarrow> None \<in> set (take (created p) (workers p))"

text \<open>Session \<open>i\<close> of a concurrent server.\<close>

abbreviation session_at :: "'w running \<Rightarrow> nat \<Rightarrow> session" where
  "session_at p i \<equiv> sessions (server_of p) ! i"

inductive conc_step :: "'w environment \<Rightarrow> router \<Rightarrow> 'w running \<Rightarrow> 'w running \<Rightarrow> bool" for env r where
  thread_created: "created p < length (workers p) \<Longrightarrow> conc_step env r p (p\<lparr>created := Suc (created p)\<rparr>)"
| accepted: "idle p \<Longrightarrow> accepts (server_of p) = pre @ i # post \<Longrightarrow>
     conc_step env r p (p\<lparr>server_of := handle_accept i error remote mem ((server_of p)\<lparr>accepts := pre @ post\<rparr>)\<rparr>)"
| read_failed: "idle p \<Longrightarrow> i < length (sessions (server_of p)) \<Longrightarrow> 0 < reads (session_at p i) \<Longrightarrow>
     conc_step env r p (p\<lparr>server_of := put_session i
       (handle_error ((session_at p i)\<lparr>reads := reads (session_at p i) - 1\<rparr>)) (server_of p)\<rparr>)"
| read_invalid: "idle p \<Longrightarrow> i < length (sessions (server_of p)) \<Longrightarrow> 0 < reads (session_at p i) \<Longrightarrow>
     length bytes \<le> max_length \<Longrightarrow> \<not> is_valid (new_request bytes beyond) \<Longrightarrow>
     conc_step env r p (p\<lparr>server_of := put_session i
       (handle_invalid_request (new_request bytes beyond) (receive bytes (session_at p i))) (server_of p)\<rparr>)"
| read_valid: "k < length (workers p) \<Longrightarrow> workers p ! k = None \<Longrightarrow> i < length (sessions (server_of p)) \<Longrightarrow>
     0 < reads (session_at p i) \<Longrightarrow> length bytes \<le> max_length \<Longrightarrow> is_valid (new_request bytes beyond) \<Longrightarrow>
     \<not> freed_read (new_request bytes beyond) \<Longrightarrow> k < created p \<Longrightarrow>
     conc_step env r p (p\<lparr>server_of := put_session i (receive bytes (session_at p i)) (server_of p),
       workers := (workers p)[k := Some (i, Selecting (new_request bytes beyond))]\<rparr>)"
| act: "k < length (workers p) \<Longrightarrow> workers p ! k = Some (i, t) \<Longrightarrow>
     task_step env r t (shared_of p) = (Inr (Inl t'), sh') \<Longrightarrow>
     conc_step env r p (p\<lparr>shared_of := sh', workers := (workers p)[k := Some (i, t')]\<rparr>)"
| answer: "k < length (workers p) \<Longrightarrow> workers p ! k = Some (i, t) \<Longrightarrow>
     task_step env r t (shared_of p) = (Inr (Inr resp), sh') \<Longrightarrow>
     conc_step env r p (p\<lparr>server_of := put_session i (session_write (snd (generate_response resp))
         ((session_at p i)\<lparr>holder := Some (fst (generate_response resp))\<rparr>)) (server_of p),
       shared_of := sh', workers := (workers p)[k := None]\<rparr>)"
| throw: "k < length (workers p) \<Longrightarrow> workers p ! k = Some (i, t) \<Longrightarrow>
     task_step env r t (shared_of p) = (Inl (Raise e), sh') \<Longrightarrow>
     conc_step env r p (p\<lparr>server_of := put_session i (handle_error (session_at p i)) (server_of p),
       shared_of := sh', workers := (workers p)[k := None]\<rparr>)"
| write_done: "idle p \<Longrightarrow> i < length (sessions (server_of p)) \<Longrightarrow> 0 < writes (session_at p i) \<Longrightarrow>
     handle_write error shutdown_ok ((session_at p i)\<lparr>writes := writes (session_at p i) - 1\<rparr>) = Inr s' \<Longrightarrow>
     conc_step env r p (p\<lparr>server_of := put_session i s' (server_of p)\<rparr>)"

abbreviation conc_run :: "'w environment \<Rightarrow> router \<Rightarrow> 'w running \<Rightarrow> 'w running \<Rightarrow> bool" where
  "conc_run env r \<equiv> (conc_step env r)\<^sup>*\<^sup>*"

subsection \<open>The life cycle of sessions\<close>

text \<open>How many threads route a request of session \<open>i\<close>.\<close>

definition work_of :: "nat \<Rightarrow> worker \<Rightarrow> nat" where
  "work_of i w = (case w of Some (j, t) \<Rightarrow> if j = i then 1 else 0 | None \<Rightarrow> 0)"

lemma work_of_simps [simp]: "work_of i None = 0" "work_of i (Some (j, t)) = (if j = i then 1 else 0)"
  by (simp_all add: work_of_def)

definition busy :: "nat \<Rightarrow> worker list \<Rightarrow> nat" where
  "busy i ws = sum_list (map (work_of i) ws)"

lemma busy_update: "k < length ws \<Longrightarrow> busy i (ws[k := w]) + work_of i (ws ! k) = busy i ws + work_of i w"
  unfolding busy_def by (rule sum_map_update)

lemma busy_eqs:
  "k < length ws \<Longrightarrow> ws ! k = None \<Longrightarrow> busy i (ws[k := Some (j, t)]) = busy i ws + (if j = i then 1 else 0)"
  "k < length ws \<Longrightarrow> ws ! k = Some (j, t) \<Longrightarrow> busy i (ws[k := Some (j, t')]) = busy i ws"
  "k < length ws \<Longrightarrow> ws ! k = Some (j, t) \<Longrightarrow> busy i (ws[k := None]) + (if j = i then 1 else 0) = busy i ws"
  using busy_update [of k ws i "Some (j, t)"] busy_update [of k ws i "Some (j, t')"] busy_update [of k ws i None]
  by auto

lemma busy_idle: "busy i (replicate n None) = 0"
  by (induction n) (simp_all add: busy_def)

text \<open>A session that is under way with \<open>n\<close> threads at work on it, or whose accept failed.\<close>

definition session_live :: "nat \<Rightarrow> session \<Rightarrow> bool" where
  "session_live n s \<longleftrightarrow>
     (reads s + writes s + deletions s + n = 1 \<and> length (sent s) + reads s + n = 1) \<or>
     (reads s = 0 \<and> writes s = 0 \<and> sent s = [] \<and> deletions s = 1 \<and> n = 0)"

definition conc_ok :: "server \<Rightarrow> worker list \<Rightarrow> bool" where
  "conc_ok srv ws \<longleftrightarrow> is_running srv \<and> srv_router srv \<noteq> None \<and> sessions srv \<noteq> [] \<and>
     accepts srv = [length (sessions srv) - 1] \<and> fresh_session (last (sessions srv)) \<and>
     (\<forall>j. length (sessions srv) - 1 \<le> j \<longrightarrow> busy j ws = 0) \<and>
     (\<forall>i<length (sessions srv) - 1. session_live (busy i ws) (sessions srv ! i))"

text \<open>A session that something is outstanding for.\<close>

lemma conc_ok_active:
  assumes "conc_ok srv ws" "i < length (sessions srv)"
    and "0 < reads (sessions srv ! i) \<or> 0 < writes (sessions srv ! i) \<or> 0 < busy i ws"
  shows "i < length (sessions srv) - 1"
    and "reads (sessions srv ! i) + writes (sessions srv ! i) + deletions (sessions srv ! i) + busy i ws = 1"
    and "length (sent (sessions srv ! i)) + reads (sessions srv ! i) + busy i ws = 1"
    and "0 < reads (sessions srv ! i) \<or> 0 < busy i ws \<Longrightarrow> sent (sessions srv ! i) = []"
proof -
  show i: "i < length (sessions srv) - 1"
  proof (rule ccontr)
    assume "\<not> i < length (sessions srv) - 1"
    then have "i = length (sessions srv) - 1" using assms(2) by simp
    moreover from this have "sessions srv ! i = last (sessions srv)"
      using assms(1) by (simp add: conc_ok_def last_conv_nth)
    ultimately show False using assms by (simp add: conc_ok_def fresh_session_def)
  qed
  then have "session_live (busy i ws) (sessions srv ! i)" using assms(1) by (simp add: conc_ok_def)
  then show "reads (sessions srv ! i) + writes (sessions srv ! i) + deletions (sessions srv ! i) + busy i ws = 1"
    "length (sent (sessions srv ! i)) + reads (sessions srv ! i) + busy i ws = 1"
    using assms(3) by (auto simp: session_live_def)
  then show "sent (sessions srv ! i) = []" if "0 < reads (sessions srv ! i) \<or> 0 < busy i ws"
    using that by (cases "sent (sessions srv ! i)") auto
qed

lemma conc_ok_busy: "conc_ok srv ws \<Longrightarrow> 0 < busy i ws \<Longrightarrow> i < length (sessions srv)"
  by (rule ccontr) (simp add: conc_ok_def)

lemma busy_leave:
  assumes "k < length ws" "ws ! k = Some (i, t)"
  shows "busy i ws = Suc (busy i (ws[k := None]))" "j \<noteq> i \<Longrightarrow> busy j (ws[k := None]) = busy j ws"
  using busy_eqs(3) [OF assms, of i] busy_eqs(3) [OF assms, of j] by simp_all

lemma conc_ok_update:
  assumes "conc_ok srv ws" "i < length (sessions srv) - 1" "session_live (busy i ws') s'"
    and "\<And>j. j \<noteq> i \<Longrightarrow> busy j ws' = busy j ws"
  shows "conc_ok (put_session i s' srv) ws'"
proof -
  have "last ((sessions srv)[i := s']) = last (sessions srv)"
    using assms(2) by (subst last_list_update) (auto simp: assms(1) [unfolded conc_ok_def])
  moreover have "busy j ws' = 0" if "length (sessions srv) - 1 \<le> j" for j
    using assms that by (cases "j = i") (auto simp: conc_ok_def)
  moreover have "session_live (busy j ws') ((sessions srv)[i := s'] ! j)" if "j < length (sessions srv) - 1" for j
    using assms that by (cases "j = i") (auto simp: conc_ok_def)
  ultimately show ?thesis using assms(1) by (simp add: conc_ok_def put_session_def)
qed

lemma conc_ok_accept:
  assumes "conc_ok srv ws" "accepts srv = pre @ i # post"
  shows "conc_ok (handle_accept i error remote mem (srv\<lparr>accepts := pre @ post\<rparr>)) ws"
proof -
  have acc: "pre = []" "post = []" "i = length (sessions srv) - 1"
    using assms by (cases pre; auto simp: conc_ok_def)+
  obtain ss s where ss: "sessions srv = ss @ [s]" using assms(1) by (cases "sessions srv" rule: rev_cases) (auto simp: conc_ok_def)
  let ?s = "if \<not> error then session_start remote s else delete_session s"
  have fresh: "fresh_session s" using assms(1) ss by (simp add: conc_ok_def)
  then have new: "session_live 0 (session_start remote s)" "session_live 0 (delete_session s)"
    by (auto simp: session_live_def fresh_session_def session_simps delete_session_def)
  have zero: "busy (length ss) ws = 0" using assms(1) ss by (simp add: conc_ok_def)
  have live: "session_live (busy j ws) ((ss @ [?s, new_session mem]) ! j)" if j: "j < Suc (length ss)" for j
  proof (cases "j = length ss")
    case True
    then show ?thesis using new zero by simp
  next
    case False
    then show ?thesis using assms(1) ss j by (simp add: conc_ok_def nth_append)
  qed
  show ?thesis
    using assms(1) ss live
    by (auto simp: acc conc_ok_def handle_accept_def start_accept_def)
qed

lemma conc_step_ok:
  "conc_step env r p p' \<Longrightarrow> conc_ok (server_of p) (workers p) \<Longrightarrow> conc_ok (server_of p') (workers p')"
proof (induction rule: conc_step.induct)
  case (thread_created p)
  then show ?case by simp
next
  case (accepted p pre i post error remote mem)
  then show ?case using conc_ok_accept by simp
next
  case (read_failed p i)
  note a = conc_ok_active [OF read_failed(4,2), simplified read_failed(3), simplified]
  show ?case using read_failed(3) a
    by (auto intro!: conc_ok_update [OF read_failed(4)] simp: session_live_def session_simps)
next
  case (read_invalid p i bytes beyond)
  note a = conc_ok_active [OF read_invalid(6,2), simplified read_invalid(3), simplified]
  show ?case using read_invalid(3) a
    by (auto intro!: conc_ok_update [OF read_invalid(6)] simp: session_live_def session_simps receive_def)
next
  case (read_valid k p i bytes beyond)
  note a = conc_ok_active [OF read_valid(9,3), simplified read_valid(4), simplified]
  show ?case using read_valid(4) a
    by (auto intro!: conc_ok_update [OF read_valid(9)] simp: busy_eqs(1) [OF read_valid(1,2)] session_live_def receive_def)
next
  case (act k p i t t' sh')
  then show ?case by (simp add: conc_ok_def busy_eqs(2))
next
  case (answer k p i t resp sh')
  note busy = busy_leave [OF answer(1,2)]
  have i: "i < length (sessions (server_of p))" using conc_ok_busy [OF answer(4)] busy(1) by simp
  note a = conc_ok_active [OF answer(4) i, simplified busy(1), simplified]
  show ?case using a busy(2)
    by (auto intro!: conc_ok_update [OF answer(4)] simp: session_live_def session_simps)
next
  case (throw k p i t e sh')
  note busy = busy_leave [OF throw(1,2)]
  have i: "i < length (sessions (server_of p))" using conc_ok_busy [OF throw(4)] busy(1) by simp
  note a = conc_ok_active [OF throw(4) i, simplified busy(1), simplified]
  show ?case using a busy(2)
    by (auto intro!: conc_ok_update [OF throw(4)] simp: session_live_def session_simps)
next
  case (write_done p i error shutdown_ok s')
  note a = conc_ok_active [OF write_done(5,2), simplified write_done(3), simplified]
  show ?case using write_done(3) handle_write_cases [OF write_done(4)] a
    by (auto intro!: conc_ok_update [OF write_done(5)] simp: session_live_def)
qed

lemma conc_run_ok: "conc_run env r p p' \<Longrightarrow> conc_ok (server_of p) (workers p) \<Longrightarrow> conc_ok (server_of p') (workers p')"
  by (induction rule: rtranclp_induct) (auto intro: conc_step_ok)

lemma conc_step_workers: "conc_step env r p p' \<Longrightarrow> length (workers p') = length (workers p)"
  by (induction rule: conc_step.induct) simp_all

lemma conc_run_workers: "conc_run env r p p' \<Longrightarrow> length (workers p') = length (workers p)"
  by (induction rule: rtranclp_induct) (auto dest: conc_step_workers)

lemma run_server_ok:
  assumes "srv_router srv0 \<noteq> None" "sessions srv0 = []" "accepts srv0 = []"
  shows "conc_ok (server_of (run_server (snd (start_accept mem srv0)) sh)) (workers (run_server (snd (start_accept mem srv0)) sh))"
  using assms by (auto simp: conc_ok_def run_server_def start_accept_def busy_idle)

text \<open>
  C9: with any number of threads and the callbacks of all sessions interleaved, one accept is
  outstanding, on a session that no thread has touched, and every other session has exactly one of: a
  read, a write, a thread that routes its request, or its one deletion. So no two threads work on one
  session and none on a deleted one; at most one response is sent, and only after the request was
  routed.
\<close>

theorem concurrent_lifecycle:
  assumes "srv_router srv0 \<noteq> None" "sessions srv0 = []" "accepts srv0 = []"
    and "conc_run env r (run_server (snd (start_accept mem srv0)) sh0) p"
  shows "accepts (server_of p) = [length (sessions (server_of p)) - 1] \<and>
    fresh_session (last (sessions (server_of p))) \<and> busy (length (sessions (server_of p)) - 1) (workers p) = 0 \<and>
    (\<forall>i<length (sessions (server_of p)) - 1.
      reads (session_at p i) + writes (session_at p i) + deletions (session_at p i) + busy i (workers p) = 1 \<and>
      length (sent (session_at p i)) + reads (session_at p i) + busy i (workers p) \<le> 1) \<and>
    length (workers p) = unat (thread_count srv0)"
proof -
  have ok: "conc_ok (server_of p) (workers p)"
    using conc_run_ok [OF assms(4) run_server_ok [OF assms(1-3)]] .
  have "length (workers p) = unat (thread_count srv0)"
    using conc_run_workers [OF assms(4)] by (auto simp: run_server_def start_accept_def)
  with ok show ?thesis by (auto simp: conc_ok_def session_live_def)
qed

subsection \<open>Every answer is recorded once\<close>

text \<open>The responses that the sessions hold: those that were routed and given to \<open>async_write\<close>.\<close>

definition held :: "session \<Rightarrow> response multiset" where
  "held s = (case holder s of Some resp \<Rightarrow> {#resp#} | None \<Rightarrow> {#})"

definition held_responses :: "server \<Rightarrow> response multiset" where
  "held_responses srv = sum_list (map held (sessions srv))"

abbreviation tasks_of :: "worker list \<Rightarrow> task option list" where
  "tasks_of ws \<equiv> map (map_option snd) ws"

text \<open>The pool of threads alone, with the requests that were answered and those that threw.\<close>

definition pool_of :: "'w running \<Rightarrow> (request \<times> response) list \<Rightarrow> request list \<Rightarrow> 'w pool" where
  "pool_of p as th = \<lparr>threads = tasks_of (workers p), shared = shared_of p, answers = as, thrown = th\<rparr>"

text \<open>The sessions hold what \<open>generate_response\<close> made of the answers.\<close>

definition holds_answers :: "server \<Rightarrow> (request \<times> response) list \<Rightarrow> bool" where
  "holds_answers srv as \<longleftrightarrow> held_responses srv = mset (map (\<lambda>a. fst (generate_response (snd a))) as)"

text \<open>A session that has sent nothing holds nothing.\<close>

definition silent_empty :: "server \<Rightarrow> bool" where
  "silent_empty srv \<longleftrightarrow> (\<forall>s\<in>set (sessions srv). sent s = [] \<longrightarrow> holder s = None)"

lemma held_put:
  assumes "i < length (sessions srv)"
  shows "held_responses (put_session i s srv) + held (sessions srv ! i) = held_responses srv + held s"
  unfolding held_responses_def put_session_def using sum_map_update [OF assms, of held s] by simp

lemma held_same:
  "i < length (sessions srv) \<Longrightarrow> holder s = holder (sessions srv ! i) \<Longrightarrow> held_responses (put_session i s srv) = held_responses srv"
  using held_put [of i srv s] by (simp add: held_def)

lemma silent_put:
  "silent_empty srv \<Longrightarrow> (i < length (sessions srv) \<Longrightarrow> sent s = [] \<Longrightarrow> holder s = None) \<Longrightarrow> silent_empty (put_session i s srv)"
  using set_update_subset_insert [of "sessions srv" i s]
  by (cases "i < length (sessions srv)") (auto simp: silent_empty_def put_session_def list_update_beyond)

lemma silent_at: "silent_empty srv \<Longrightarrow> i < length (sessions srv) \<Longrightarrow> sent (sessions srv ! i) = [] \<Longrightarrow> holder (sessions srv ! i) = None"
  by (simp add: silent_empty_def)

lemma handle_accept_held:
  assumes "conc_ok srv ws" "accepts srv = pre @ i # post" "silent_empty srv"
  shows "held_responses (handle_accept i error remote mem (srv\<lparr>accepts := pre @ post\<rparr>)) = held_responses srv"
    and "silent_empty (handle_accept i error remote mem (srv\<lparr>accepts := pre @ post\<rparr>))"
proof -
  let ?s = "if \<not> error then session_start remote (sessions srv ! i) else delete_session (sessions srv ! i)"
  have i: "i < length (sessions srv)" using assms(1,2) by (cases pre) (auto simp: conc_ok_def)
  have srv: "srv_router srv \<noteq> None" using assms(1) by (simp add: conc_ok_def)
  have s: "holder ?s = holder (sessions srv ! i)" "sent ?s = sent (sessions srv ! i)"
    by (simp_all add: session_simps delete_session_def)
  have "held_responses (handle_accept i error remote mem (srv\<lparr>accepts := pre @ post\<rparr>)) = held_responses (put_session i ?s srv)"
    using srv by (simp add: handle_accept_def start_accept_def held_responses_def put_session_def held_def new_session_def)
  then show "held_responses (handle_accept i error remote mem (srv\<lparr>accepts := pre @ post\<rparr>)) = held_responses srv"
    using held_same [OF i s(1)] by simp
  have "silent_empty (put_session i ?s srv)" using silent_put [OF assms(3), of i ?s] silent_at [OF assms(3) i] s by simp
  then show "silent_empty (handle_accept i error remote mem (srv\<lparr>accepts := pre @ post\<rparr>))"
    using srv by (auto simp: silent_empty_def put_session_def handle_accept_def start_accept_def new_session_def)
qed

lemma conc_step_silent:
  "conc_step env r p p' \<Longrightarrow> conc_ok (server_of p) (workers p) \<Longrightarrow> silent_empty (server_of p) \<Longrightarrow> silent_empty (server_of p')"
proof (induction rule: conc_step.induct)
  case (accepted p pre i post error remote mem)
  then show ?case using handle_accept_held(2) [OF accepted(3,2,4)] by simp
next
  case (write_done p i error shutdown_ok s')
  have "holder s' = holder (session_at p i)" "sent s' = sent (session_at p i)"
    using write_done(4) by (auto simp: handle_write_def session_close_def split: if_splits)
  then show ?case using write_done by (auto intro!: silent_put silent_at)
qed (auto intro!: silent_put silent_at simp: session_simps receive_def)

lemma tasks_at: "k < length ws \<Longrightarrow> tasks_of ws ! k = map_option snd (ws ! k)" "length (tasks_of ws) = length ws"
  "tasks_of (ws[k := w]) = (tasks_of ws)[k := map_option snd w]"
  by (simp_all add: map_update)

lemma conc_step_pool:
  "conc_step env r p p' \<Longrightarrow> conc_ok (server_of p) (workers p) \<Longrightarrow> silent_empty (server_of p) \<Longrightarrow>
    holds_answers (server_of p) as \<Longrightarrow>
    \<exists>as' th'. pool_run env r (pool_of p as th) (pool_of p' as' th') \<and> holds_answers (server_of p') as'"
proof (induction rule: conc_step.induct)
  case (thread_created p)
  then show ?case by (intro exI [of _ as] exI [of _ th]) (simp add: pool_of_def)
next
  case (accepted p pre i post error remote mem)
  then show ?case using handle_accept_held(1) [OF accepted(3,2,4)]
    by (intro exI [of _ as] exI [of _ th]) (simp add: pool_of_def holds_answers_def)
next
  case (read_failed p i)
  then show ?case
    by (intro exI [of _ as] exI [of _ th]) (simp add: pool_of_def holds_answers_def held_same session_simps)
next
  case (read_invalid p i bytes beyond)
  then show ?case
    by (intro exI [of _ as] exI [of _ th]) (simp add: pool_of_def holds_answers_def held_same session_simps receive_def)
next
  case (read_valid k p i bytes beyond)
  have "pool_step env r (pool_of p as th)
      (pool_of (p\<lparr>workers := (workers p)[k := Some (i, Selecting (new_request bytes beyond))]\<rparr>) as th)"
    using pool_step.take [of k "pool_of p as th"] read_valid(1,2) by (simp add: pool_of_def tasks_at)
  with read_valid show ?case
    by (intro exI [of _ as] exI [of _ th]) (simp add: pool_of_def holds_answers_def held_same receive_def r_into_rtranclp)
next
  case (act k p i t t' sh')
  have "pool_step env r (pool_of p as th) (pool_of (p\<lparr>shared_of := sh', workers := (workers p)[k := Some (i, t')]\<rparr>) as th)"
    using pool_step.act [of k "pool_of p as th" t env r t' sh'] act(1-3) by (simp add: pool_of_def tasks_at)
  with act show ?case
    by (intro exI [of _ as] exI [of _ th]) (simp add: r_into_rtranclp)
next
  case (answer k p i t resp sh')
  note busy = busy_leave(1) [OF answer(1,2)]
  have i: "i < length (sessions (server_of p))" using conc_ok_busy [OF answer(4)] busy by simp
  have "sent (session_at p i) = []" using conc_ok_active(4) [OF answer(4) i] busy by simp
  then have "held (session_at p i) = {#}" using silent_at [OF answer(5) i] by (simp add: held_def)
  note held = held_put [OF i, unfolded this, simplified]
  let ?as = "as @ [(task_request t, resp)]"
  have "pool_step env r (pool_of p as th) (pool_of (p\<lparr>shared_of := sh', workers := (workers p)[k := None]\<rparr>) ?as th)"
    using pool_step.answer [of k "pool_of p as th" t env r resp sh'] answer(1-3) by (simp add: pool_of_def tasks_at)
  with answer(6) show ?case
    by (intro exI [of _ ?as] exI [of _ th])
      (simp add: pool_of_def holds_answers_def held held_def session_simps r_into_rtranclp)
next
  case (throw k p i t e sh')
  have i: "i < length (sessions (server_of p))" using conc_ok_busy [OF throw(4)] busy_leave(1) [OF throw(1,2)] by simp
  let ?th = "th @ [task_request t]"
  have "pool_step env r (pool_of p as th) (pool_of (p\<lparr>shared_of := sh', workers := (workers p)[k := None]\<rparr>) as ?th)"
    using pool_step.throw [of k "pool_of p as th" t env r e sh'] throw(1-3) by (simp add: pool_of_def tasks_at)
  with throw(6) i show ?case
    by (intro exI [of _ as] exI [of _ ?th])
      (simp add: pool_of_def holds_answers_def held_same session_simps r_into_rtranclp)
next
  case (write_done p i error shutdown_ok s')
  have "holder s' = holder (session_at p i)"
    using write_done(4) by (auto simp: handle_write_def session_close_def split: if_splits)
  with write_done show ?case
    by (intro exI [of _ as] exI [of _ th]) (simp add: pool_of_def holds_answers_def held_same)
qed

lemma conc_run_pool:
  assumes "conc_run env r p p'" "conc_ok (server_of p) (workers p)" "silent_empty (server_of p)" "holds_answers (server_of p) as"
  shows "\<exists>as' th'. pool_run env r (pool_of p as th) (pool_of p' as' th') \<and> holds_answers (server_of p') as'"
proof -
  have "conc_ok (server_of p') (workers p') \<and> silent_empty (server_of p') \<and>
      (\<exists>as' th'. pool_run env r (pool_of p as th) (pool_of p' as' th') \<and> holds_answers (server_of p') as')"
    using assms
  proof (induction rule: rtranclp_induct)
    case (step q q')
    then obtain as' th' where q: "pool_run env r (pool_of p as th) (pool_of q as' th')" "holds_answers (server_of q) as'" by blast
    from conc_step_pool [OF step(2) _ _ q(2), of th'] step obtain as'' th'' where
      "pool_run env r (pool_of q as' th') (pool_of q' as'' th'')" "holds_answers (server_of q') as''" by blast
    with q(1) step show ?case by (meson conc_step_ok conc_step_silent rtranclp_trans)
  qed blast
  then show ?thesis by blast
qed

lemma run_server_pool:
  assumes "sessions srv0 = []"
  shows "silent_empty (server_of (run_server (snd (start_accept mem srv0)) sh))"
    and "holds_answers (server_of (run_server (snd (start_accept mem srv0)) sh)) []"
    and "pool_of (run_server srv sh) [] [] = server_threads (thread_count srv) sh"
  using assms by (auto simp: silent_empty_def holds_answers_def held_responses_def held_def run_server_def start_accept_def
      new_session_def pool_of_def server_threads_def)

text \<open>
  C10: with any number of threads and the callbacks of all sessions interleaved, there is a list of
  answered requests such that the responses the sessions hold are the answers, and the record is what
  it was, the URI and status of each answer once, and what the requests have recorded that are between
  their record and their response. So no answer is lost from the status page or shown twice, and a
  request that is not valid or that throws adds nothing. The routes for the page do not change.
\<close>

theorem concurrent_records:
  assumes "router_ok r" "srv_router srv0 \<noteq> None" "sessions srv0 = []" "accepts srv0 = []"
    and "conc_run env r (run_server (snd (start_accept mem srv0)) (rec0, w0)) p"
  shows "(\<exists>as. held_responses (server_of p) = mset (map (\<lambda>a. fst (generate_response (snd a))) as) \<and>
      mset (url_response_list (fst (shared_of p))) =
        mset (url_response_list rec0) + mset (map answer_record as) + in_flight (tasks_of (workers p))) \<and>
    (set (workers p) \<subseteq> {None} \<longrightarrow> in_flight (tasks_of (workers p)) = {#}) \<and>
    prefix_handler_list (fst (shared_of p)) = prefix_handler_list rec0"
proof -
  note start = run_server_pool [OF assms(3)]
  obtain as th where as: "pool_run env r (pool_of (run_server (snd (start_accept mem srv0)) (rec0, w0)) [] []) (pool_of p as th)"
      "holds_answers (server_of p) as"
    using conc_run_pool [OF assms(5) run_server_ok [OF assms(2-4)] start(1,2), of "[]"] by blast
  have "set (workers p) \<subseteq> {None} \<longrightarrow> in_flight (tasks_of (workers p)) = {#}" by (auto intro!: in_flight_idle)
  moreover have "pool_recorded rec0 (pool_of p as th)"
    using pool_run_recorded [OF assms(1) as(1) [unfolded start(3)] server_threads_recorded [of "(rec0, w0)", simplified]] .
  ultimately show ?thesis using as(2) unfolding pool_recorded_def holds_answers_def by (auto simp: pool_of_def)
qed

subsection \<open>The table of memes\<close>

text \<open>
  What a view has read stays a row of the right form, whatever becomes of the table meanwhile; a status
  handler that goes on has read a count that is not negative.
\<close>

fun task_ok :: "task option \<Rightarrow> bool" where
  "task_ok (Some (Viewing result req)) \<longleftrightarrow> result = [] \<or> (\<exists>q. result = [q] \<and> row_ok q)"
| "task_ok (Some (Counted r1 req)) \<longleftrightarrow> 0 \<le> get_url_response_list_size r1"
| "task_ok (Some (Listed r1 r2 req)) \<longleftrightarrow> 0 \<le> get_url_response_list_size r1"
| "task_ok t \<longleftrightarrow> True"

lemma handler_step_keeps:
  assumes "meme_environment env rows" "table_ok (rows (snd sh))" "handler_step env h req sh = (res, sh')"
  shows "table_ok (rows (snd sh')) \<and> (\<forall>t. res = Inr t \<longrightarrow> task_ok (Some t))"
proof -
  obtain rec w where sh: "sh = (rec, w)" by (cases sh)
  show ?thesis
  proof (cases rule: handler_step_cases [where h = h and env = env and req = req])
    case status
    then show ?thesis using assms(2,3) by (auto simp: sh split: if_splits)
  next
    case (view m i)
    have tab: "meme_table (database env) rows" "table_ok (rows w)" using assms(1,2) by (simp_all add: meme_environment_def sh)
    then show ?thesis
      by (cases rule: view_read_step [of "database env" rows w i]) (use assms(2,3) view(3) in \<open>auto simp: sh\<close>)
  next
    case whole
    obtain out w' where h: "handle_request env rec h req w = (out, w')" by (cases "handle_request env rec h req w")
    have "table_ok (rows w')" using keepsD [OF handle_request_keeps [OF assms(1)] _ h] assms(2) by (simp add: sh)
    then show ?thesis using assms(3) whole h by (cases out) (auto simp: sh)
  qed
qed

lemma view_write_keeps:
  assumes "meme_table sq rows" "table_ok (rows db)" "task_ok (Some (Viewing result req))" "view_write sq result db = (res, db')"
  shows "table_ok (rows db')"
proof (cases "result = []")
  case True
  then show ?thesis using assms(2,4) by (simp add: view_write_def)
next
  case False
  then obtain q n where q: "result = [q]" "row_ok q" "q ! 4 = to_dec n" "int n \<le> int_max"
    using assms(3) by (auto simp: row_ok_def)
  show ?thesis
  proof (cases "int n = int_max")
    case True
    then show ?thesis using view_write_full [OF q(2), of sq db] stoi_counter [OF q(3,4)] assms(2,4) q(1) by simp
  next
    case False
    with q(4) have n: "int n < int_max" "int (Suc n) \<le> int_max" by simp_all
    obtain db1 where "view_write sq [q] db = (Inr (json_response (meme_json (q ! 1) (q ! 2) (q ! 3))), db1)"
      "rows db1 = map (\<lambda>t. if t ! 0 = q ! 0 then t[4 := to_dec (Suc n)] else t) (rows db)"
      using view_write_step [of sq rows q n db, OF assms(1) q(2,3) n(1)] by (elim exE conjE)
    with viewed_ok(1) [OF assms(2) n(2), of "q ! 0"] show ?thesis using assms(4) q(1) by simp
  qed
qed

lemma task_step_keeps:
  assumes "meme_environment env rows" "table_ok (rows (snd sh))" "task_ok (Some t)" "task_step env r t sh = (res, sh')"
  shows "table_ok (rows (snd sh')) \<and> (\<forall>t'. res = Inr (Inl t') \<longrightarrow> task_ok (Some t'))"
proof -
  obtain rec w where sh: "sh = (rec, w)" by (cases sh)
  show ?thesis
  proof (cases t)
    case (Selecting req)
    obtain out w' where o: "select_handler env r (get_uri req) w = (out, w')" by (cases "select_handler env r (get_uri req) w")
    have "table_ok (rows w')" using keepsD [OF select_handler_keeps [OF assms(1)] _ o] assms(2) by (simp add: sh)
    then show ?thesis using assms(4) o by (cases out) (auto simp: sh Selecting io_bind_def)
  next
    case (Handling h req)
    obtain out sh1 where o: "handler_step env h req sh = (out, sh1)" by (cases "handler_step env h req sh")
    from handler_step_keeps [OF assms(1,2) o] show ?thesis
      using assms(4) o by (cases out) (auto simp: Handling)
  next
    case (Viewing result req)
    have tab: "meme_table (database env) rows" using assms(1) by (simp add: meme_environment_def)
    obtain out w' where o: "view_write (database env) result w = (out, w')" by (cases "view_write (database env) result w")
    have "table_ok (rows w')"
      using view_write_keeps [of "database env" rows w, OF tab _ assms(3) [unfolded Viewing] o] assms(2) by (simp add: sh)
    then show ?thesis using assms(4) o by (cases out) (auto simp: sh Viewing io_bind_def)
  next
    case (Listed r1 r2 req)
    then show ?thesis using assms(2,4) by (auto simp: sh io_bind_def split: sum.splits)
  qed (use assms(2-4) in \<open>auto simp: sh io_bind_def split: sum.splits\<close>)
qed

definition conc_table :: "('w \<Rightarrow> string list list) \<Rightarrow> 'w running \<Rightarrow> bool" where
  "conc_table rows p \<longleftrightarrow> table_ok (rows (snd (shared_of p))) \<and> (\<forall>t\<in>set (tasks_of (workers p)). task_ok t)"

lemma conc_table_update:
  assumes "conc_table rows p" "table_ok (rows (snd sh'))" "task_ok (map_option snd w)"
  shows "conc_table rows (p\<lparr>shared_of := sh', workers := (workers p)[k := w]\<rparr>)"
  using assms set_update_subset_insert [of "workers p" k w] by (auto simp: conc_table_def)

lemma conc_table_task:
  assumes "conc_table rows p" "k < length (workers p)" "workers p ! k = Some (i, t)"
  shows "task_ok (Some t)"
proof -
  have "Some (i, t) \<in> set (workers p)" using assms(2,3) by (metis nth_mem)
  then show ?thesis using assms(1) by (force simp: conc_table_def)
qed

lemma conc_step_keeps:
  assumes "meme_environment env rows"
  shows "conc_step env r p p' \<Longrightarrow> conc_table rows p \<Longrightarrow> conc_table rows p'"
proof (induction rule: conc_step.induct)
  case (read_valid k p i bytes beyond)
  then show ?case
    using set_update_subset_insert [of "workers p" k "Some (i, Selecting (new_request bytes beyond))"]
    by (auto simp: conc_table_def)
next
  case (act k p i t t' sh')
  have ok: "table_ok (rows (snd (shared_of p)))" using act(4) by (simp add: conc_table_def)
  from task_step_keeps [OF assms ok conc_table_task [OF act(4,1,2)] act(3)] show ?case
    by (intro conc_table_update [OF act(4)]) simp_all
next
  case (answer k p i t resp sh')
  have ok: "table_ok (rows (snd (shared_of p)))" using answer(4) by (simp add: conc_table_def)
  from task_step_keeps [OF assms ok conc_table_task [OF answer(4,1,2)] answer(3)]
  have "conc_table rows (p\<lparr>shared_of := sh', workers := (workers p)[k := None]\<rparr>)"
    by (intro conc_table_update [OF answer(4)]) simp_all
  then show ?case by (simp add: conc_table_def)
next
  case (throw k p i t e sh')
  have ok: "table_ok (rows (snd (shared_of p)))" using throw(4) by (simp add: conc_table_def)
  from task_step_keeps [OF assms ok conc_table_task [OF throw(4,1,2)] throw(3)]
  have "conc_table rows (p\<lparr>shared_of := sh', workers := (workers p)[k := None]\<rparr>)"
    by (intro conc_table_update [OF throw(4)]) simp_all
  then show ?case by (simp add: conc_table_def)
qed (simp_all add: conc_table_def)

lemma conc_run_keeps:
  assumes "meme_environment env rows"
  shows "conc_run env r p p' \<Longrightarrow> conc_table rows p \<Longrightarrow> conc_table rows p'"
  by (induction rule: rtranclp_induct) (auto dest: conc_step_keeps [OF assms])

text \<open>
  C11: whatever connections are made and whatever they send, with any number of threads, in any order
  of callbacks and of the actions of requests, and whether requests are answered, throw or fail, the
  table of memes stays well formed: one row per identifier, documents with texts that are not empty
  and hold only letters, digits, spaces and \<open>_.,?!\<close>, counters that are numbers of type \<open>int\<close>.
\<close>

theorem concurrent_keeps_table:
  assumes "meme_environment env rows" "table_ok (rows w0)"
    and "conc_run env r (run_server srv0 (rec0, w0)) p"
  shows "table_ok (rows (snd (shared_of p)))"
  using conc_run_keeps [OF assms(1,3)] assms(2) by (simp add: run_server_def conc_table_def)

subsection \<open>Requests that are not interrupted\<close>

text \<open>A server whose threads are all there and idle.\<close>

definition quiet :: "nat \<Rightarrow> server \<Rightarrow> 'w shared \<Rightarrow> 'w running" where
  "quiet n srv sh = \<lparr>server_of = srv, shared_of = sh, created = Suc n, workers = replicate (Suc n) None\<rparr>"

lemma quiet_simps [simp]:
  "server_of (quiet n srv sh) = srv" "shared_of (quiet n srv sh) = sh" "workers (quiet n srv sh) = replicate (Suc n) None"
  "created (quiet n srv sh) = Suc n"
  "idle (quiet n srv sh)" "(quiet n srv sh)\<lparr>server_of := srv'\<rparr> = quiet n srv' sh"
  by (simp_all add: quiet_def idle_def)

text \<open>A thread that routes a whole request, from the state in which it has taken it.\<close>

definition taken :: "nat \<Rightarrow> server \<Rightarrow> 'w shared \<Rightarrow> nat \<Rightarrow> task \<Rightarrow> 'w running" where
  "taken n srv sh i t =
     \<lparr>server_of = srv, shared_of = sh, created = Suc n, workers = Some (i, t) # replicate n None\<rparr>"

lemma taken_act:
  assumes "task_step env r t sh = (Inr (Inl t'), sh')"
  shows "conc_step env r (taken n srv sh i t) (taken n srv sh' i t')"
  using conc_step.act [of 0 "taken n srv sh i t" i t env r t' sh'] assms by (simp add: taken_def)

lemma taken_answer:
  assumes "task_step env r t sh = (Inr (Inr resp), sh')"
  shows "conc_step env r (taken n srv sh i t) (quiet n (put_session i (session_write (snd (generate_response resp))
    ((sessions srv ! i)\<lparr>holder := Some (fst (generate_response resp))\<rparr>)) srv) sh')"
  using conc_step.answer [of 0 "taken n srv sh i t" i t env r resp sh'] assms by (simp add: taken_def quiet_def)

lemma taken_throw:
  assumes "task_step env r t sh = (Inl (Raise e), sh')"
  shows "conc_step env r (taken n srv sh i t) (quiet n (put_session i (handle_error (sessions srv ! i)) srv) sh')"
  using conc_step.throw [of 0 "taken n srv sh i t" i t env r e sh'] assms by (simp add: taken_def quiet_def)

text \<open>What the callback does with the outcome of the router.\<close>

definition after_route :: "response result \<Rightarrow> session \<Rightarrow> session" where
  "after_route res s = (case res of
       Inr resp \<Rightarrow> session_write (snd (generate_response resp)) (s\<lparr>holder := Some (fst (generate_response resp))\<rparr>)
     | Inl f \<Rightarrow> handle_error s)"

lemma taken_run:
  "task_run env r t sh res sh' \<Longrightarrow>
     conc_run env r (taken n srv sh i t) (quiet n (put_session i (after_route res (sessions srv ! i)) srv) sh')"
proof (induction rule: task_run.induct)
  case (answered t sh resp sh')
  from r_into_rtranclp [where r = "conc_step env r", OF taken_answer [OF answered]] show ?case by (simp add: after_route_def)
next
  case (threw t sh e sh')
  from r_into_rtranclp [where r = "conc_step env r", OF taken_throw [OF threw]] show ?case by (simp add: after_route_def)
next
  case (more t sh t' sh1 res sh')
  from converse_rtranclp_into_rtranclp [where r = "conc_step env r", OF taken_act [OF more(1)] more(3)] show ?case .
qed

lemmas taken_routes = taken_run [OF route_request_answers, unfolded after_route_def sum.case]

lemma quiet_take:
  assumes "i < length (sessions srv)" "0 < reads (sessions srv ! i)" "length bytes \<le> max_length"
    and "is_valid (new_request bytes beyond)" "\<not> freed_read (new_request bytes beyond)"
  shows "conc_step env r (quiet n srv sh)
    (taken n (put_session i (receive bytes (sessions srv ! i)) srv) sh i (Selecting (new_request bytes beyond)))"
  using conc_step.read_valid [of 0 "quiet n srv sh" i bytes beyond env r] assms by (simp add: taken_def quiet_def)

lemma put_put [simp]: "put_session i s' (put_session i s srv) = put_session i s' srv"
  by (simp add: put_session_def)

lemma put_at [simp]: "i < length (sessions srv) \<Longrightarrow> sessions (put_session i s srv) ! i = s"
  by (simp add: put_session_def)

subsection \<open>A sample run\<close>

text \<open>A server with four threads accepts a connection.\<close>

definition sample_server :: server where
  "sample_server = (new_server [] 8080 4)\<lparr>srv_router := Some sample_router\<rparr>"

definition sample_pending :: server where
  "sample_pending = snd (start_accept [] sample_server)"

definition sample_accepted :: server where
  "sample_accepted = handle_accept 0 False None [] (sample_pending\<lparr>accepts := []\<rparr>)"

lemma sample_server_facts: "srv_router sample_server \<noteq> None" "sessions sample_server = []" "accepts sample_server = []"
  by (simp_all add: sample_server_def new_server_def)

lemma threads_created: "n \<le> length (workers p) \<Longrightarrow> created p = 0 \<Longrightarrow> conc_run env r p (p\<lparr>created := n\<rparr>)"
proof (induction n)
  case 0
  then have "p\<lparr>created := 0\<rparr> = p" by simp
  then show ?case by simp
next
  case (Suc n)
  then have "conc_step env r (p\<lparr>created := n\<rparr>) (p\<lparr>created := Suc n\<rparr>)"
    using conc_step.thread_created [of "p\<lparr>created := n\<rparr>" env r] by simp
  with Suc show ?case by (simp add: rtranclp.rtrancl_into_rtrancl)
qed

lemma run_server_starts:
  assumes "unat (thread_count srv) = Suc n"
  shows "conc_run env r (run_server srv sh) (quiet n srv sh)"
  using threads_created [of "Suc n" "run_server srv sh" env r] assms by (simp add: run_server_def quiet_def)

lemma sample_accept_step: "conc_run env r (run_server sample_pending sh) (quiet 3 sample_accepted sh)"
proof -
  have p: "accepts sample_pending = [] @ 0 # []" "thread_count sample_pending = 4"
    by (simp_all add: sample_pending_def start_accept_def sample_server_def new_server_def)
  have "conc_run env r (run_server sample_pending sh) (quiet 3 sample_pending sh)"
    by (rule run_server_starts) (simp add: p(2))
  moreover have "conc_step env r (quiet 3 sample_pending sh) (quiet 3 sample_accepted sh)"
    using conc_step.accepted [of "quiet 3 sample_pending sh" "[]" 0 "[]" env r False None "[]"] p(1)
    by (simp add: sample_accepted_def)
  ultimately show ?thesis by (rule rtranclp.rtrancl_into_rtrancl)
qed

lemma sample_accepted_sessions: "sessions sample_accepted = [session_start None (new_session []), new_session []]"
  by (simp add: sample_accepted_def sample_pending_def handle_accept_def start_accept_def sample_server_def new_server_def)

theorem concurrent_lifecycle_witness:
  "accepts (server_of (quiet 3 sample_accepted (new_recorder, 0 :: nat))) = [1] \<and>
   reads (session_at (quiet 3 sample_accepted (new_recorder, 0 :: nat)) 0) +
   writes (session_at (quiet 3 sample_accepted (new_recorder, 0 :: nat)) 0) = 1"
proof -
  have "conc_run sample_env sample_router (run_server (snd (start_accept [] sample_server)) (new_recorder, 0))
      (quiet 3 sample_accepted (new_recorder, 0))"
    using sample_accept_step unfolding sample_pending_def .
  from concurrent_lifecycle [OF sample_server_facts this]
  show ?thesis by (simp add: sample_accepted_sessions session_simps)
qed

theorem concurrent_keeps_table_witness:
  "conc_run list_env sample_router (run_server sample_pending (new_recorder, sample_rows))
     (quiet 3 sample_accepted (new_recorder, sample_rows)) \<and> table_ok sample_rows"
proof -
  have run: "conc_run list_env sample_router (run_server sample_pending (new_recorder, sample_rows))
      (quiet 3 sample_accepted (new_recorder, sample_rows))"
    by (rule sample_accept_step)
  from concurrent_keeps_table [OF list_env_ok sample_rows_ok this] run show ?thesis by simp
qed

text \<open>The connection sends a request that no route covers, which a thread answers and records.\<close>

definition unmatched_bytes :: string where
  "unmatched_bytes = status_line ''GET'' ''/api'' (CHR ''1'') (CHR ''1'') @ CRLF"

theorem concurrent_records_witness:
  "\<exists>p. conc_run sample_env sample_router (run_server sample_pending (new_recorder, 0)) p \<and>
     mset (url_response_list (fst (shared_of p))) = {#(''/api'', 404)#} \<and> size (held_responses (server_of p)) = 1"
proof -
  let ?req = "new_request unmatched_bytes []"
  let ?resp = "apply_default_headers sample_router (default_handle_request ?req)"
  let ?srv = "put_session 0 (receive unmatched_bytes (session_start None (new_session []))) sample_accepted"
  have req: "get_uri ?req = ''/api''" "is_valid ?req" "length unmatched_bytes \<le> max_length" "\<not> freed_read ?req"
    by code_simp+
  have "route_request sample_env sample_router ?req (new_recorder, 0) = (Inr (?resp,
      ''ResponseCode::404::RequestHandler::default''), (request_recorder ''/api'' 404 new_recorder, 0))"
    using unmatched_answer [OF sample_router_ok, of ?req sample_env new_recorder 0] req(1) sample_router_facts by simp
  note route = taken_routes [OF this, of 3 ?srv 0]
  define p where "p = quiet 3 (put_session 0 (session_write (snd (generate_response ?resp))
      ((sessions ?srv ! 0)\<lparr>holder := Some (fst (generate_response ?resp))\<rparr>)) ?srv) (request_recorder ''/api'' 404 new_recorder, 0 :: nat)"
  have take: "conc_step sample_env sample_router (quiet 3 sample_accepted (new_recorder, 0)) (taken 3 ?srv (new_recorder, 0) 0 (Selecting ?req))"
    using quiet_take [of 0 sample_accepted unmatched_bytes "[]" sample_env sample_router 3] req(2-4)
    by (simp add: sample_accepted_sessions session_simps)
  have run: "conc_run sample_env sample_router (run_server sample_pending (new_recorder, 0)) p"
    using rtranclp_trans [OF sample_accept_step converse_rtranclp_into_rtranclp [OF take route]]
    unfolding p_def .
  have rec: "mset (url_response_list (fst (shared_of p))) = {#(''/api'', 404)#}"
    by (simp add: p_def request_recorder_def new_recorder_def)
  have "set (workers p) \<subseteq> {None}" by (auto simp: p_def)
  with concurrent_records [OF sample_router_ok sample_server_facts run [unfolded sample_pending_def]]
  obtain as where as: "held_responses (server_of p) = mset (map (\<lambda>a. fst (generate_response (snd a))) as)"
      "mset (url_response_list (fst (shared_of p))) = mset (map answer_record as)"
    by (auto simp: new_recorder_def)
  have "size (mset (map answer_record as)) = 1" unfolding as(2) [symmetric] rec by simp
  then have "size (held_responses (server_of p)) = 1" unfolding as(1) by simp
  with run rec show ?thesis by blast
qed

end
