(* ===== verification/Concurrent_Faults.thy ===== *)
theory Concurrent_Faults
  imports Concurrent_Server
begin

text \<open>
  How the running server can end. An exception that a request throws is caught by \<open>handle_success\<close> and
  answered with 500, and a call that never returns is waited for; any other fault in a thread, an
  exception that leaves a callback, a signal, and a thread that cannot be created end the process with
  all its sessions: \<open>conc_crash\<close>. Memory that cannot be allocated is left out.

  The lemmas: which faults each action of a request has, and the causes that are left for a server that
  the main program has started, over a database with a well-formed table.
\<close>

definition caught :: "fault \<Rightarrow> bool" where
  "caught f \<longleftrightarrow> (\<exists>e. f = Raise e)"

text \<open>
  A thread whose next action is such a fault; a session whose socket cannot be shut down after its
  response was written, or that reads a request whose query is then taken from freed memory; a signal,
  whose handler runs on an idle thread; and a \<open>boost::thread\<close> that cannot be created. That exception
  reaches \<open>main\<close>, which returns 0, but on the way destroys the \<open>io_service\<close> under the threads that
  were created and run on it.
\<close>

inductive task_crash :: "'w environment \<Rightarrow> router \<Rightarrow> 'w running \<Rightarrow> task \<Rightarrow> fault \<Rightarrow> bool" for env r where
  "k < length (workers p) \<Longrightarrow> workers p ! k = Some (i, t) \<Longrightarrow> task_step env r t (shared_of p) = (Inl f, sh') \<Longrightarrow>
     \<not> caught f \<Longrightarrow> f \<noteq> Blocked \<Longrightarrow> task_crash env r p t f"

inductive conc_crash :: "'w environment \<Rightarrow> router \<Rightarrow> 'w running \<Rightarrow> fault \<Rightarrow> bool" for env r where
  in_task: "task_crash env r p t f \<Longrightarrow> conc_crash env r p f"
| in_close: "idle p \<Longrightarrow> i < length (sessions (server_of p)) \<Longrightarrow> 0 < writes (session_at p i) \<Longrightarrow>
     handle_write error shutdown_ok ((session_at p i)\<lparr>writes := writes (session_at p i) - 1\<rparr>) = Inl f \<Longrightarrow>
     conc_crash env r p f"
| in_read: "idle p \<Longrightarrow> i < length (sessions (server_of p)) \<Longrightarrow> 0 < reads (session_at p i) \<Longrightarrow>
     length bytes \<le> max_length \<Longrightarrow> freed_read (new_request bytes beyond) \<Longrightarrow> conc_crash env r p Undefined"
| in_signal: "idle p \<Longrightarrow> signal_handler error = Inl f \<Longrightarrow> conc_crash env r p f"
| in_create: "created p < length (workers p) \<Longrightarrow>
     conc_crash env r p (if created p = 0 then Exit 0 else Undefined)"

subsection \<open>The faults of the meme handler\<close>

lemma UriDecode_caught: "UriDecode s = Inl f \<Longrightarrow> caught f"
  using UriDecode_outcome [of s] by (simp add: caught_def)

lemma body_check_caught: "body_check b = Inl f \<Longrightarrow> caught f"
  by (cases "UriDecode b") (auto simp: body_check_def UriDecode_caught Let_def split: prod.splits if_splits)

lemma row_views_ok: "row_ok q \<Longrightarrow> \<exists>v. row_views q = Inr v"
  using stoi_counter by (force simp: row_ok_def row_views_def vec_at_def)

lemma list_response_total:
  assumes "\<forall>q\<in>set result. row_ok q"
  shows "\<exists>resp. list_response result = Inr resp"
proof -
  have "first_fault (map row_views xs) = None" if "\<forall>q\<in>set xs. row_ok q" for xs
    using that by (induction xs) (auto dest!: row_views_ok)
  from this [OF assms] have "\<exists>sorted. sort_memes result = Inr sorted \<and> set sorted = set result"
    by (cases "length result < 2") (simp_all add: sort_memes_def)
  then obtain sorted where s: "sort_memes result = Inr sorted" "set sorted = set result" by blast
  moreover have "list_all (\<lambda>q. 5 \<le> length q) sorted"
    using assms s(2) by (auto simp: list_all_iff row_ok_def)
  ultimately show ?thesis by (simp add: list_response_def memes_json_def)
qed

lemma subset_rows: "table_ok t \<Longrightarrow> mset out \<subseteq># mset t \<Longrightarrow> \<forall>q\<in>set out. row_ok q"
  by (auto simp: table_ok_def dest!: set_mset_mono)

lemma meme_list_returns:
  assumes "meme_table sq rows" "table_ok (rows db)"
  shows "\<exists>resp db'. meme_list sq db = (Inr resp, db')"
proof -
  obtain out db' where o: "select_record sq table_name [] db = (Inr out, db')" "mset out = mset (rows db)"
    using all_rows [of sq rows db, OF assms(1)] by (elim exE conjE)
  then obtain resp where "list_response out = Inr resp"
    using list_response_total [OF subset_rows [OF assms(2), of out]] by auto
  with o show ?thesis by (simp add: meme_list_def)
qed

lemma meme_search_faults:
  assumes "meme_table sq rows" "table_ok (rows db)" "fst (meme_search sq q db) = Inl f"
  shows "caught f"
proof (cases "UriDecode q")
  case (Inl e)
  then show ?thesis using assms(3) UriDecode_caught by (simp add: meme_search_def)
next
  case (Inr d)
  obtain out db' where o: "search_record sq table_name [(''top_caption'', d), (''bot_caption'', d)] db = (Inr out, db')"
    "mset out \<subseteq># mset (rows db)" using search_rows [of sq rows d d db, OF assms(1)] by (elim exE conjE)
  obtain resp where "list_response out = Inr resp"
    using list_response_total [OF subset_rows [OF assms(2) o(2)]] by auto
  with o(1) Inr show ?thesis using assms(3) by (simp add: meme_search_def push_def numeral_2_eq_2)
qed

lemma create_faults:
  assumes "meme_table sq rows" "table_ok (rows db)" "gen db = (Inr new_id, db1)" "rows db1 = rows db" "check_id new_id"
    and "fst (create_meme sq gen req db) = Inl f"
  shows "caught f"
proof (cases "body_doc req")
  case (Some ps)
  from create_step [of sq rows db gen new_id db1 req ps, OF assms(1-5) Some] assms(6) show ?thesis by (elim exE conjE) simp
next
  case None
  then show ?thesis using assms(6)
    by (cases "body_check (Request.get_body req)")
      (auto simp: create_meme_def body_doc_def body_check_caught split: option.splits)
qed

lemma update_faults:
  assumes "meme_table sq rows" "table_ok (rows db)" "fst (update_meme sq i req db) = Inl f"
  shows "caught f"
proof (cases "body_doc req")
  case (Some ps)
  show ?thesis
  proof (cases "check_id i")
    case True
    from update_step [of sq rows db i req ps, OF assms(1,2) True Some] assms(3) show ?thesis by (elim exE conjE) simp
  next
    case False
    then show ?thesis using assms(3)
      by (cases "body_check (Request.get_body req)") (auto simp: update_meme_def body_check_caught)
  qed
next
  case None
  then show ?thesis using assms(3)
    by (cases "body_check (Request.get_body req)")
      (auto simp: update_meme_def body_doc_def body_check_caught split: option.splits)
qed

lemma delete_faults:
  assumes "meme_table sq rows" "table_ok (rows db)" "fst (delete_meme sq i req db) = Inl f"
  shows "caught f"
proof (cases "check_id i")
  case True
  from delete_step [of sq rows db i req, OF assms(1,2) True] assms(3) show ?thesis by (elim exE conjE) simp
qed (use assms(3) in \<open>simp add: delete_meme_def\<close>)

lemma meme_handle_faults:
  assumes "meme_table sq rows" "table_ok (rows db)" "gen db = (Inr new_id, db1)" "rows db1 = rows db" "check_id new_id"
    and "view_target req = None" "fst (meme_handle_request sq gen req db) = Inl f"
  shows "caught f"
proof -
  let ?check = "check_uri (get_uri req)"
  obtain resp db' where "meme_list sq db = (Inr resp, db')" using meme_list_returns [of sq rows db, OF assms(1,2)] by blast
  then have list: "fst (meme_list sq db) \<noteq> Inl f" by simp
  note faults = create_faults [of sq rows db gen new_id db1 req f, OF assms(1-5)]
    update_faults [of sq rows db ?check req f, OF assms(1,2)] delete_faults [of sq rows db ?check req f, OF assms(1,2)]
    meme_search_faults [of sq rows db _ f, OF assms(1,2)]
  show ?thesis
    using assms(6,7) list faults unfolding meme_handle_request_def view_target_def Let_def
    by (simp split: if_splits)
qed

subsection \<open>The faults of an action\<close>

text \<open>
  What can end the process when a thread takes its next action: the proxy, constructed from a block
  that is malformed or answering a request; the count of the status page, when \<open>2^31\<close> requests are
  recorded; and the view of a meme whose counter is the largest \<open>int\<close>.
\<close>

inductive crash_cause :: "router \<Rightarrow> server_status_recorder \<Rightarrow> task \<Rightarrow> fault \<Rightarrow> bool" for r rec where
  proxy_block: "get_route_handler r (longest_prefix_match r (get_uri req)) = Inr ''proxy'' \<Longrightarrow> \<not> proxy_block_ok r \<Longrightarrow>
     crash_cause r rec (Selecting req) Undefined"
| proxy_request: "\<not> caught f \<Longrightarrow> crash_cause r rec (Handling (Reverse_proxy_handler h) req) f"
| count: "2 ^ 31 \<le> length (url_response_list rec) \<Longrightarrow> crash_cause r rec (Handling Status_handler req) (Exit 1)"
| counter: "stoi (q ! 4) = Inr int_max \<Longrightarrow> crash_cause r rec (Viewing [q] req) Undefined"

lemma negative_size: "get_url_response_list_size rec < 0 \<Longrightarrow> 2 ^ 31 \<le> length (url_response_list rec)"
  using size_small [of rec] by (cases "length (url_response_list rec) < 2 ^ 31") auto

lemma handling_faults:
  assumes "meme_environment env rows" "table_ok (rows w)" "handler_step env h req (rec, w) = (Inl f, sh')"
  shows "caught f \<or> crash_cause r rec (Handling h req) f"
proof (cases rule: handler_step_cases [where h = h and env = env and req = req])
  case status
  then show ?thesis
    using assms(3) crash_cause.count [OF negative_size, of rec r req] by (auto split: if_splits)
next
  case (view m i)
  have tab: "meme_table (database env) rows" using assms(1) by (simp add: meme_environment_def)
  then show ?thesis
    by (cases rule: view_read_step [of "database env" rows w i, OF _ assms(2)]) (use assms(3) view(3) in auto)
next
  case whole
  obtain out w' where out: "handle_request env rec h req w = (out, w')" by (cases "handle_request env rec h req w")
  with assms(3) whole have f: "out = Inl f" by (cases out) simp_all
  have tab: "meme_table (database env) rows" using assms(1) by (simp add: meme_environment_def)
  obtain i w1 where gen: "random_uuid env w = (Inr i, w1)" "rows w1 = rows w" "check_id i"
    using assms(1) unfolding meme_environment_def by metis
  show ?thesis
  proof (cases h)
    case (Meme_handler m)
    have "fst (meme_handle_request (database env) (random_uuid env) req w) = Inl f"
      using out f Meme_handler by simp
    from meme_handle_faults [of "database env" rows w "random_uuid env" i w1 req f, OF tab assms(2) gen whole(3) [OF Meme_handler] this]
    show ?thesis ..
  qed (use out f whole(2) in \<open>auto intro: crash_cause.proxy_request\<close>)
qed

lemma viewing_faults:
  assumes "meme_table sq rows" "task_ok (Some (Viewing result req))" "view_write sq result w = (Inl f, w')"
  shows "caught f \<or> crash_cause r rec (Viewing result req) f"
proof (cases "result = []")
  case True
  then show ?thesis using assms(3) by (simp add: view_write_def)
next
  case False
  then obtain q n where q: "result = [q]" "row_ok q" "q ! 4 = to_dec n" "int n \<le> int_max"
    using assms(2) by (auto simp: row_ok_def)
  show ?thesis
  proof (cases "int n = int_max")
    case True
    then have "stoi (q ! 4) = Inr int_max" using stoi_counter [OF q(3,4)] by simp
    then show ?thesis
      using view_write_full [OF q(2), of sq w] assms(3) crash_cause.counter q(1) by auto
  next
    case False
    with q(4) have "int n < int_max" by simp
    from view_write_step [of sq rows q n w, OF assms(1) q(2,3) this] assms(3) q(1) show ?thesis by (elim exE conjE) simp
  qed
qed

lemma task_step_faults:
  assumes "router_ok r" "meme_environment env rows" "table_ok (rows (snd sh))" "task_ok (Some t)"
    and "task_step env r t sh = (Inl f, sh')"
  shows "caught f \<or> crash_cause r (fst sh) t f"
proof -
  obtain rec w where sh: "sh = (rec, w)" by (cases sh)
  show ?thesis
  proof (cases t)
    case (Selecting req)
    obtain out w' where o: "select_handler env r (get_uri req) w = (out, w')" by (cases "select_handler env r (get_uri req) w")
    then have "out = Inl f" using assms(5) by (cases out) (simp_all add: sh Selecting)
    with select_handler_cases [OF assms(1), of "get_uri req" env w] o show ?thesis
      by (auto simp: Selecting intro: crash_cause.proxy_block)
  next
    case (Handling h req)
    obtain out sh1 where o: "handler_step env h req sh = (out, sh1)" by (cases "handler_step env h req sh")
    then have "out = Inl f" using assms(5) by (cases out) (simp_all add: Handling)
    with handling_faults [OF assms(2), of w h req rec f sh1 r] assms(3) o show ?thesis by (simp add: sh Handling)
  next
    case (Listed r1 r2 req)
    then show ?thesis using assms(4,5) by (auto simp: sh status_handle_request_def Let_def)
  next
    case (Viewing result req)
    have tab: "meme_table (database env) rows" using assms(2) by (simp add: meme_environment_def)
    obtain out w' where o: "view_write (database env) result w = (out, w')" by (cases "view_write (database env) result w")
    then have "out = Inl f" using assms(5) by (cases out) (simp_all add: sh Viewing)
    with viewing_faults [of "database env" rows result req w f w' r rec, OF tab assms(4) [unfolded Viewing]] o
    show ?thesis by (simp add: sh Viewing)
  next
    case (Finishing out req)
    obtain n where "get_route_handler r (longest_prefix_match r (get_uri req)) = Inr n"
      using get_route_handler_ok [OF assms(1)] by blast
    then show ?thesis using assms(5) by (simp add: Finishing)
  qed (use assms(5) in \<open>auto simp: sh io_bind_def\<close>)
qed

subsection \<open>How a started server ends\<close>

lemma running_start:
  assumes "main_setup fs port_free mem argv = Inr (Running srv rec)"
  obtains srv0 where "srv = snd (start_accept mem srv0)" "srv_router srv0 \<noteq> None" "srv_router srv0 = srv_router srv"
    "sessions srv0 = []" "accepts srv0 = []" "0 < thread_count srv0"
proof -
  have two: "length argv = 2" using assms by (simp add: main_setup_def split: if_splits)
  from two show thesis
  proof (cases rule: main_setup_cases [of argv fs port_free mem])
    case (running input ok c b conf p s)
    then show thesis using assms by (intro that [of "(new_server c (word_of_int p) (GetThreadCount conf))\<lparr>srv_router := Some (fst s)\<rparr>"])
      (auto simp: new_server_def start_accept_def)
  qed (use assms in auto)
qed

lemma conc_run_table:
  assumes "meme_environment env rows" "table_ok (rows w0)" "conc_run env r (run_server srv (rec, w0)) p"
  shows "conc_table rows p"
proof -
  have "conc_table rows (run_server srv (rec, w0))" using assms(2) by (simp add: conc_table_def run_server_def)
  with conc_run_keeps [OF assms(1,3)] show ?thesis .
qed

lemma handle_write_fault: "handle_write error shutdown_ok s = Inl f \<Longrightarrow> f = Raise System_Error"
  by (auto simp: handle_write_def session_close_def split: if_splits)


text \<open>A started server creates its threads and accepts a connection.\<close>

lemma first_connection:
  assumes "srv_router srv0 \<noteq> None" "sessions srv0 = []" "accepts srv0 = []" "0 < thread_count srv0"
  obtains n srv1 where "conc_run env r (run_server (snd (start_accept mem srv0)) sh) (quiet n srv1 sh)"
    "sessions srv1 = [session_start None (new_session mem), new_session mem]"
proof -
  let ?srv = "snd (start_accept mem srv0)"
  obtain n where "unat (thread_count srv0) = Suc n"
    using assms(4) by (cases "unat (thread_count srv0)") (auto simp: word_less_nat_alt)
  then have run: "conc_run env r (run_server ?srv sh) (quiet n ?srv sh)"
    by (intro run_server_starts) (simp add: start_accept_def)
  let ?srv1 = "handle_accept 0 False None mem (?srv\<lparr>accepts := [] @ []\<rparr>)"
  have acc: "accepts (server_of (quiet n ?srv sh)) = [] @ 0 # []" using assms by (auto simp: start_accept_def)
  have "conc_step env r (quiet n ?srv sh) (quiet n ?srv1 sh)"
    using conc_step.accepted [OF _ acc, of env r False None mem] by simp
  moreover have "sessions ?srv1 = [session_start None (new_session mem), new_session mem]"
    using assms by (auto simp: start_accept_def handle_accept_def)
  ultimately show thesis using run that by (meson rtranclp.rtrancl_into_rtrancl)
qed

lemma reset_crash:
  assumes "srv_router srv0 \<noteq> None" "sessions srv0 = []" "accepts srv0 = []" "0 < thread_count srv0"
  shows "\<exists>p. conc_run env r (run_server (snd (start_accept mem srv0)) sh) p \<and>
    (\<exists>i<length (sessions (server_of p)). 0 < writes (session_at p i)) \<and> conc_crash env r p (Raise System_Error)"
proof -
  let ?s = "session_start None (new_session mem)"
  obtain n srv1 where run: "conc_run env r (run_server (snd (start_accept mem srv0)) sh) (quiet n srv1 sh)"
    and sess: "sessions srv1 = [?s, new_session mem]" using first_connection [OF assms] .
  let ?t = "handle_error (?s\<lparr>reads := reads ?s - 1\<rparr>)"
  let ?p = "quiet n (put_session 0 ?t srv1) sh"
  have step: "conc_step env r (quiet n srv1 sh) ?p"
    using conc_step.read_failed [of "quiet n srv1 sh" 0 env r] sess by (simp add: session_simps)
  have "handle_write False False (?t\<lparr>writes := writes ?t - 1\<rparr>) = Inl (Raise System_Error)"
    by (simp add: handle_write_def session_close_def)
  then have "conc_crash env r ?p (Raise System_Error)"
    by (intro conc_crash.in_close [of _ 0 False False]) (simp_all add: sess put_session_def session_simps)
  moreover have "0 < length (sessions (server_of ?p)) \<and> 0 < writes (session_at ?p 0)"
    by (simp add: sess put_session_def session_simps)
  ultimately show ?thesis using rtranclp.rtrancl_into_rtrancl [OF run step] by blast
qed

text \<open>
  C38: any client can end a started server: a connection is accepted, the client goes away before it has
  sent a request, the response to that cannot be followed by a shutdown of the socket, and the
  exception of \<open>shutdown\<close> ends the process.
\<close>

theorem client_can_end_server:
  assumes "main_setup fs port_free mem argv = Inr (Running srv rec)"
  shows "\<exists>p. conc_run env r (run_server srv (rec, w0)) p \<and> conc_crash env r p (Raise System_Error)"
proof -
  obtain srv0 where "srv = snd (start_accept mem srv0)" "srv_router srv0 \<noteq> None" "sessions srv0 = []"
    "accepts srv0 = []" "0 < thread_count srv0" using running_start [OF assms] by metis
  with reset_crash [of srv0 env r mem "(rec, w0)"] show ?thesis by blast
qed

text \<open>
  C39: one request is enough to bring a started server into undefined behaviour, whatever its
  configuration routes: a valid status line, of a request that fits one read, whose target has a query
  behind a path of more than 15 characters. The query is read from memory that was freed when the path
  was assigned to \<open>uri_\<close>.
\<close>

theorem query_can_end_server:
  assumes "main_setup fs port_free mem argv = Inr (Running srv rec)"
    and "status_line_ok m u d1 d2" "long_query u" "length (status_line m u d1 d2 @ rest) \<le> max_length"
  shows "\<exists>p i. conc_run env r (run_server srv (rec, w0)) p \<and> reads (session_at p i) = 1 \<and>
    freed_read (new_request (status_line m u d1 d2 @ rest) beyond) \<and> conc_crash env r p Undefined"
proof -
  obtain srv0 where srv0: "srv = snd (start_accept mem srv0)" "srv_router srv0 \<noteq> None" "sessions srv0 = []"
    "accepts srv0 = []" "0 < thread_count srv0" using running_start [OF assms(1)] by metis
  obtain n srv1 where run: "conc_run env r (run_server srv (rec, w0)) (quiet n srv1 (rec, w0))"
    and sess: "sessions srv1 = [session_start None (new_session mem), new_session mem]"
    using first_connection [OF srv0(2-5), of env r mem "(rec, w0)"] srv0(1) by metis
  have one: "reads (session_at (quiet n srv1 (rec, w0)) 0) = 1" by (simp add: sess session_simps)
  have freed: "freed_read (new_request (status_line m u d1 d2 @ rest) beyond)"
    using new_request_flags(2) [OF assms(2) refl] assms(3) by simp
  have "conc_crash env r (quiet n srv1 (rec, w0)) Undefined"
    by (rule conc_crash.in_read [OF _ _ _ assms(4) freed, of _ 0]) (simp_all add: sess session_simps)
  with run one freed show ?thesis by blast
qed

text \<open>A server that the main program starts.\<close>

definition sample_main_server :: server where
  "sample_main_server = the (outcome_server (main_setup sample_main_fs True [] [''prog'', ''conf'']))"

lemma sample_main_running: "\<exists>rec r. main_setup sample_main_fs True [] [''prog'', ''conf''] = Inr (Running sample_main_server rec) \<and>
    srv_router sample_main_server = Some r"
proof -
  have "map_option (\<lambda>srv. srv_router srv \<noteq> None) (outcome_server (main_setup sample_main_fs True [] [''prog'', ''conf''])) = Some True"
    by code_simp
  then obtain srv r where s: "outcome_server (main_setup sample_main_fs True [] [''prog'', ''conf'']) = Some srv" "srv_router srv = Some r"
    by auto
  with outcome_server_Some [OF s(1)] show ?thesis by (auto simp: sample_main_server_def)
qed


theorem query_can_end_server_witness:
  "\<exists>r rec p. conc_run list_env r (run_server sample_main_server (rec, sample_rows)) p \<and> conc_crash list_env r p Undefined"
proof -
  obtain rec where run: "main_setup sample_main_fs True [] [''prog'', ''conf''] = Inr (Running sample_main_server rec)"
    using sample_main_running by blast
  have "status_line_ok ''GET'' ''/echo/abcdefghij?x=1'' (CHR ''1'') (CHR ''1'')" "long_query ''/echo/abcdefghij?x=1''"
    "length (status_line ''GET'' ''/echo/abcdefghij?x=1'' (CHR ''1'') (CHR ''1'') @ CRLF) \<le> max_length" by code_simp+
  from query_can_end_server [OF run this, of list_env] show ?thesis by blast
qed

theorem client_can_end_server_witness:
  "\<exists>r rec p. conc_run list_env r (run_server sample_main_server (rec, sample_rows)) p \<and> conc_crash list_env r p (Raise System_Error)"
proof -
  obtain rec where "main_setup sample_main_fs True [] [''prog'', ''conf''] = Inr (Running sample_main_server rec)"
    using sample_main_running by blast
  from client_can_end_server [OF this, of list_env] show ?thesis by blast
qed

end
