(* ===== verification/Concurrent_Progress.thy ===== *)
theory Concurrent_Progress
  imports Concurrent_Faults
begin

text \<open>
  The running server answers what it has read. Which connections are made, when a client sends its
  request or goes away and when a write is done is up to clients and network, and nothing makes them
  hurry: there is no timeout. What the server does by itself is route the requests that its threads have
  taken. The lemmas: a request costs its thread at most six actions, and where no thread can go on,
  every thread is idle and every session waits for its client or is gone, unless a thread is at a fault
  of \<open>Concurrent_Faults\<close> or in a call of the proxy that never returns.
\<close>

text \<open>A step of a thread that routes a request, and a step in which a thread takes a request.\<close>

definition work_step :: "'w environment \<Rightarrow> router \<Rightarrow> 'w running \<Rightarrow> 'w running \<Rightarrow> bool" where
  "work_step env r p p' \<longleftrightarrow> conc_step env r p p' \<and>
     (\<exists>k<length (workers p). workers p ! k \<noteq> None \<and> workers p' ! k \<noteq> workers p ! k)"

definition takes_request :: "'w running \<Rightarrow> 'w running \<Rightarrow> bool" where
  "takes_request p p' \<longleftrightarrow> (\<exists>k<length (workers p). workers p ! k = None \<and> workers p' ! k \<noteq> None)"

subsection \<open>Termination\<close>

text \<open>The actions that a task has left at most.\<close>

fun task_rank :: "task \<Rightarrow> nat" where
  "task_rank (Selecting req) = 6"
| "task_rank (Handling h req) = 5"
| "task_rank (Counted r1 req) = 4"
| "task_rank (Listed r1 r2 req) = 3"
| "task_rank (Viewing result req) = 3"
| "task_rank (Recording out req) = 2"
| "task_rank (Finishing out req) = 1"

definition worker_rank :: "worker \<Rightarrow> nat" where
  "worker_rank w = (case w of Some (i, t) \<Rightarrow> task_rank t | None \<Rightarrow> 0)"

definition work_left :: "'w running \<Rightarrow> nat" where
  "work_left p = sum_list (map worker_rank (workers p))"

lemma worker_rank_simps [simp]: "worker_rank None = 0" "worker_rank (Some (i, t)) = task_rank t"
  by (simp_all add: worker_rank_def)

lemma task_rank_pos [simp]: "0 < task_rank t"
  by (cases t) simp_all

lemma handler_step_rank:
  assumes "handler_step env h req sh = (Inr t, sh')"
  shows "task_rank t < 5"
proof -
  obtain rec w where sh: "sh = (rec, w)" by (cases sh)
  show ?thesis
    using assms unfolding sh
    by (cases rule: handler_step_cases [where h = h and env = env and req = req])
      (auto simp: on_snd_def io_bind_def split: prod.splits sum.splits if_splits)
qed

lemma task_step_rank:
  assumes "task_step env r t sh = (Inr (Inl t'), sh')"
  shows "task_rank t' < task_rank t"
proof (cases t)
  case (Handling h req)
  with assms have "handler_step env h req sh = (Inr t', sh')" by (auto simp: io_bind_eq_Inr io_return_def)
  from handler_step_rank [OF this] show ?thesis by (simp add: Handling)
qed (use assms in \<open>cases sh; auto simp: io_bind_eq_Inr on_snd_eq_iff io_lift_def io_return_def\<close>)+

lemma rank_worker:
  "k < length ws \<Longrightarrow> sum_list (map worker_rank (ws[k := w])) + worker_rank (ws ! k) =
     sum_list (map worker_rank ws) + worker_rank w"
  by (rule sum_map_update)

lemma rank_leave:
  assumes "k < length ws" "ws ! k = Some (i, t)"
  shows "sum_list (map worker_rank (ws[k := None])) < sum_list (map worker_rank ws)"
proof -
  have "sum_list (map worker_rank (ws[k := None])) + task_rank t = sum_list (map worker_rank ws)"
    using rank_worker [OF assms(1), of None] assms(2) by simp
  moreover have "0 < task_rank t" by simp
  ultimately show ?thesis by linarith
qed

text \<open>
  A step is the next action of a thread, takes a request, or leaves the threads as they are.
\<close>

lemma conc_step_rank:
  assumes "conc_step env r p p'"
  shows "(work_left p' < work_left p \<and> \<not> takes_request p p') \<or>
    (work_left p' = work_left p + 6 \<and> takes_request p p' \<and> \<not> work_step env r p p') \<or>
    (workers p' = workers p)"
  using assms
proof (cases rule: conc_step.cases)
  case (read_valid k i bytes beyond)
  let ?w = "Some (i, Selecting (new_request bytes beyond))"
  have "work_left p' = work_left p + 6"
    using rank_worker [OF read_valid(2), of ?w] read_valid(1,3) by (simp add: work_left_def)
  moreover have "takes_request p p'" using read_valid(1-3) by (auto simp: takes_request_def)
  moreover have "\<not> work_step env r p p'" using read_valid(1-3) by (auto simp: work_step_def nth_list_update split: if_splits)
  ultimately show ?thesis by blast
next
  case (act k i t t' sh')
  then show ?thesis using rank_worker [OF act(2), of "Some (i, t')"] task_step_rank [OF act(4)]
    by (auto simp: work_left_def takes_request_def nth_list_update split: if_splits)
next
  case (answer k i t resp sh')
  then show ?thesis using rank_leave [OF answer(2,3)]
    by (auto simp: work_left_def takes_request_def nth_list_update split: if_splits)
next
  case (throw k i t e sh')
  then show ?thesis using rank_leave [OF throw(2,3)]
    by (auto simp: work_left_def takes_request_def nth_list_update split: if_splits)
qed simp_all

lemma work_step_rank: "work_step env r p p' \<Longrightarrow> work_left p' < work_left p"
  using conc_step_rank [of env r p p'] by (auto simp: work_step_def)

lemma card_less_Suc: "card {j. j < Suc n \<and> P j} = card {j. j < n \<and> P j} + (if P n then 1 else 0)"
proof -
  have "{j. j < Suc n \<and> P j} = {j. j < n \<and> P j} \<union> (if P n then {n} else {})" by (auto simp: less_Suc_eq)
  then show ?thesis by simp
qed

lemma run_work:
  assumes "\<forall>j<n. conc_step env r (\<sigma> j) (\<sigma> (Suc j))"
  shows "card {j. j < n \<and> work_step env r (\<sigma> j) (\<sigma> (Suc j))} + work_left (\<sigma> n) \<le>
    6 * card {j. j < n \<and> takes_request (\<sigma> j) (\<sigma> (Suc j))} + work_left (\<sigma> 0)"
  using assms
proof (induction n)
  case (Suc n)
  then have step: "conc_step env r (\<sigma> n) (\<sigma> (Suc n))" by simp
  have "(if work_step env r (\<sigma> n) (\<sigma> (Suc n)) then 1 else 0) + work_left (\<sigma> (Suc n)) \<le>
      work_left (\<sigma> n) + (if takes_request (\<sigma> n) (\<sigma> (Suc n)) then 6 else 0)"
    using conc_step_rank [OF step] by (auto simp: work_step_def work_left_def takes_request_def)
  with Suc show ?case by (auto simp: card_less_Suc split: if_splits)
qed simp



subsection \<open>Completion\<close>

text \<open>
  A session that waits for its client to send something, with nothing sent to it; that waits until its
  one response is written; or that is gone. An accept that failed leaves a session without a response.
\<close>

definition session_settled :: "session \<Rightarrow> bool" where
  "session_settled s \<longleftrightarrow>
     (reads s = 1 \<and> writes s = 0 \<and> deletions s = 0 \<and> sent s = []) \<or>
     (reads s = 0 \<and> writes s = 1 \<and> deletions s = 0 \<and> length (sent s) = 1) \<or>
     (reads s = 0 \<and> writes s = 0 \<and> deletions s = 1 \<and> length (sent s) \<le> 1)"

definition all_settled :: "'w running \<Rightarrow> bool" where
  "all_settled p \<longleftrightarrow> set (workers p) \<subseteq> {None} \<and>
     (\<forall>i<length (sessions (server_of p)) - 1. session_settled (session_at p i))"

lemma live_settled:
  assumes "session_live 0 s"
  shows "session_settled s"
proof -
  consider "reads s = 1" "writes s = 0" "deletions s = 0" | "reads s = 0" "writes s = 1" "deletions s = 0"
    | "reads s = 0" "writes s = 0" "deletions s = 1"
    using assms by (auto simp: session_live_def) linarith+
  then show ?thesis using assms by cases (auto simp: session_live_def session_settled_def)
qed

lemma task_enabled:
  assumes "k < length (workers p)" "workers p ! k = Some (i, t)"
  shows "(\<exists>p'. work_step env r p p') \<or> (\<exists>f sh'. task_step env r t (shared_of p) = (Inl f, sh') \<and> \<not> caught f)"
proof -
  obtain out sh' where st: "task_step env r t (shared_of p) = (out, sh')" by (cases "task_step env r t (shared_of p)")
  have changes: "work_step env r p p'" if "conc_step env r p p'" "workers p' ! k \<noteq> Some (i, t)" for p'
    using that assms by (auto simp: work_step_def)
  consider (go) t' where "out = Inr (Inl t')" | (answered) resp where "out = Inr (Inr resp)"
    | (threw) e where "out = Inl (Raise e)" | (fault) f where "out = Inl f" "\<not> caught f"
    by (cases out; cases "projr out"; cases "projl out") (auto simp: caught_def)
  then show ?thesis
  proof cases
    case go
    then have "t' \<noteq> t" using task_step_rank [of env r t "shared_of p" t' sh'] st by auto
    then show ?thesis using changes [OF conc_step.act [OF assms, of env r t' sh']] st go assms(1) by auto
  next
    case answered
    then show ?thesis using changes [OF conc_step.answer [OF assms, of env r resp sh']] st assms(1) by auto
  next
    case threw
    then show ?thesis using changes [OF conc_step.throw [OF assms, of env r e sh']] st assms(1) by auto
  next
    case fault
    with st show ?thesis by blast
  qed
qed

lemma stuck_settled:
  assumes "conc_ok (server_of p) (workers p)" "\<nexists>p'. work_step env r p p'"
    and safe: "\<And>k i t f sh'. k < length (workers p) \<Longrightarrow> workers p ! k = Some (i, t) \<Longrightarrow>
      task_step env r t (shared_of p) = (Inl f, sh') \<Longrightarrow> caught f"
  shows "all_settled p"
proof -
  have workers: "set (workers p) \<subseteq> {None}"
  proof
    fix w assume "w \<in> set (workers p)"
    then obtain k where k: "k < length (workers p)" "workers p ! k = w" by (auto simp: in_set_conv_nth)
    show "w \<in> {None}"
    proof (cases w)
      case (Some it)
      obtain i t where "it = (i, t)" by (cases it)
      then show ?thesis using task_enabled [of k p i t env r] k Some assms(2) safe by blast
    qed simp
  qed
  have "busy i (workers p) = 0" for i
  proof -
    have "replicate (length (workers p)) None = workers p" using workers by (intro replicate_length_same) auto
    then show ?thesis by (metis busy_idle)
  qed
  then show ?thesis using assms(1) workers live_settled by (auto simp: all_settled_def conc_ok_def)
qed

lemma work_stops: "\<exists>p'. (work_step env r)\<^sup>*\<^sup>* p p' \<and> (\<nexists>q. work_step env r p' q)"
proof (induction "work_left p" arbitrary: p rule: less_induct)
  case less
  show ?case
  proof (cases "\<exists>q. work_step env r p q")
    case True
    then obtain q where q: "work_step env r p q" ..
    from less [OF work_step_rank [OF q]] obtain p' where "(work_step env r)\<^sup>*\<^sup>* q p'" "\<nexists>q. work_step env r p' q" by blast
    with converse_rtranclp_into_rtranclp [where r = "work_step env r", OF q] show ?thesis by blast
  qed blast
qed

text \<open>
  C13: what a started server has read, it answers without any help from its clients. From wherever it is,
  the steps of its threads alone come to an end; and wherever they cannot go on, whatever happened before,
  every thread is idle, and every accepted session waits for its client with nothing sent to it, waits
  until its one response is written, or has been deleted, after at most one response. The only exception
  is a thread whose next action has a fault, from one of the causes of \<open>crash_cause\<close>; a call of the proxy
  that never returns is one.
\<close>

theorem requests_are_answered:
  assumes "main_setup fs port_free mem argv = Inr (Running srv rec)" "srv_router srv = Some r"
    and "meme_environment env rows" "table_ok (rows w0)"
    and "conc_run env r (run_server srv (rec, w0)) p"
  shows "(\<exists>p'. (work_step env r)\<^sup>*\<^sup>* p p' \<and> (\<nexists>q. work_step env r p' q)) \<and>
    (\<forall>p'. conc_run env r p p' \<and> (\<nexists>q. work_step env r p' q) \<longrightarrow> all_settled p' \<or>
      (\<exists>k i t f. k < length (workers p') \<and> workers p' ! k = Some (i, t) \<and>
        fst (task_step env r t (shared_of p')) = Inl f \<and> crash_cause r (fst (shared_of p')) t f))"
proof -
  obtain srv0 where start: "srv = snd (start_accept mem srv0)" "srv_router srv0 \<noteq> None" "sessions srv0 = []"
    "accepts srv0 = []" using running_start [OF assms(1)] by metis
  have router: "router_ok r" using running_router [OF assms(1,2)] by blast
  have "all_settled p' \<or>
      (\<exists>k i t f. k < length (workers p') \<and> workers p' ! k = Some (i, t) \<and>
        fst (task_step env r t (shared_of p')) = Inl f \<and> crash_cause r (fst (shared_of p')) t f)"
    if run: "conc_run env r p p'" and stuck: "\<nexists>q. work_step env r p' q" for p'
  proof (rule disjCI)
    assume none: "\<nexists>k i t f. k < length (workers p') \<and> workers p' ! k = Some (i, t) \<and>
      fst (task_step env r t (shared_of p')) = Inl f \<and> crash_cause r (fst (shared_of p')) t f"
    have all: "conc_run env r (run_server srv (rec, w0)) p'" using assms(5) run by (rule rtranclp_trans)
    note table = conc_run_table [OF assms(3,4) all]
    then have "table_ok (rows (snd (shared_of p')))" by (simp add: conc_table_def)
    note faults = task_step_faults [OF router assms(3) this conc_table_task [OF table]]
    have "conc_ok (server_of p') (workers p')"
      using conc_run_ok [OF all [unfolded start(1)] run_server_ok [OF start(2-4)]] .
    then show "all_settled p'" by (rule stuck_settled [OF _ stuck]) (use faults none in force)
  qed
  with work_stops show ?thesis by blast
qed

theorem requests_are_answered_witness:
  "\<exists>r rec p'. (work_step list_env r)\<^sup>*\<^sup>* (run_server sample_main_server (rec, sample_rows)) p' \<and>
     (all_settled p' \<or> (\<exists>k i t f. workers p' ! k = Some (i, t) \<and> crash_cause r (fst (shared_of p')) t f))"
proof -
  obtain rec r where m: "main_setup sample_main_fs True [] [''prog'', ''conf''] = Inr (Running sample_main_server rec)"
    "srv_router sample_main_server = Some r" using sample_main_running by blast
  have conc: "(work_step list_env r)\<^sup>*\<^sup>* p p' \<Longrightarrow> conc_run list_env r p p'" for p p'
    by (induction rule: rtranclp_induct) (auto simp: work_step_def intro: rtranclp.rtrancl_into_rtrancl)
  from requests_are_answered [OF m list_env_ok sample_rows_ok rtranclp.rtrancl_refl] conc show ?thesis by blast
qed

end
