(* ===== verification/Concurrent_Status.thy ===== *)
theory Concurrent_Status
  imports Concurrent_Progress
begin

text \<open>
  The status page of the running server: while a thread computes it, in three reads of the recorder,
  the other threads record what they answer.

  \<open>page_task\<close> says, for each action that the thread has still to make, how what it has read so far relates
  to the record when it started and to the record as it is now.
\<close>

definition page_answer :: "server_status_recorder \<Rightarrow> response \<Rightarrow> bool" where
  "page_answer rec0 resp \<longleftrightarrow> get_status_code resp = 200 \<and> page_shows rec0 (Response.get_body resp)"

text \<open>The count is right as long as fewer than \<open>2^31\<close> requests are recorded.\<close>

definition countable :: "server_status_recorder \<Rightarrow> bool" where
  "countable rec \<longleftrightarrow> length (url_response_list rec) < 2 ^ 31"

fun page_task :: "server_status_recorder \<Rightarrow> server_status_recorder \<Rightarrow> task \<Rightarrow> bool" where
  "page_task rec0 rec (Handling Status_handler req) \<longleftrightarrow> True"
| "page_task rec0 rec (Counted r1 req) \<longleftrightarrow> grows rec0 r1 \<and> grows r1 rec"
| "page_task rec0 rec (Listed r1 r2 req) \<longleftrightarrow> grows rec0 r1 \<and> grows r1 r2 \<and> grows r2 rec"
| "page_task rec0 rec (Recording out req) \<longleftrightarrow> (countable rec \<longrightarrow> page_answer rec0 out)"
| "page_task rec0 rec (Finishing out req) \<longleftrightarrow> (countable rec \<longrightarrow> page_answer rec0 out)"
| "page_task rec0 rec t \<longleftrightarrow> False"

lemma countable_grows: "grows rec rec' \<Longrightarrow> countable rec' \<Longrightarrow> countable rec"
  unfolding countable_def grows_def by (meson order_le_less_trans prefix_length_le)

lemma page_task_grows: "page_task rec0 rec t \<Longrightarrow> grows rec rec' \<Longrightarrow> page_task rec0 rec' t"
  by (cases "(rec0, rec, t)" rule: page_task.cases) (auto dest: grows_trans countable_grows)

lemma task_step_grows: "task_step env r t sh = (Inr (Inl t'), sh') \<Longrightarrow> grows (fst sh) (fst sh')"
proof (cases t)
  case (Handling h req)
  assume "task_step env r t sh = (Inr (Inl t'), sh')"
  with Handling have "handler_step env h req sh = (Inr t', sh')" by (auto simp: io_bind_eq_Inr io_return_def)
  from handler_step_record(1) [OF this] show ?thesis by simp
qed (cases sh; auto simp: io_bind_eq_Inr on_snd_eq_iff io_lift_def io_return_def request_recorder_def grows_def)+

lemma page_task_step:
  assumes "task_step env r t sh = (Inr (Inl t'), sh')" "page_task rec0 (fst sh) t" "grows rec0 (fst sh)"
  shows "page_task rec0 (fst sh') t'"
proof -
  obtain rec w where sh: "sh = (rec, w)" by (cases sh)
  show ?thesis
  proof (cases t)
    case (Handling h req)
    then have "h = Status_handler" using assms(2) by (cases h) simp_all
    then show ?thesis using assms by (auto simp: sh Handling handler_step_def io_bind_def split: if_splits)
  next
    case (Listed r1 r2 req)
    have g: "grows rec0 r1" "grows r1 r2" "grows r2 rec" using assms(2) by (simp_all add: sh Listed)
    obtain out where out: "status_handle_request (r1, r2, rec) req = Inr out" "t' = Recording out req" "sh' = sh"
      using assms(1) by (auto simp: sh Listed io_bind_eq_Inr io_lift_def io_return_def)
    have "page_answer rec0 out" if "countable rec"
    proof -
      have "countable r1" using that g countable_grows by blast
      then show ?thesis using status_page_complete [OF g(2,3), of req] out(1) page_shows_grows [OF g(1)]
        by (auto simp: countable_def page_answer_def)
    qed
    then show ?thesis by (simp add: out sh)
  next
    case (Recording out req)
    then show ?thesis using assms page_task_grows [OF _ task_step_grows [OF assms(1)], of rec0 "Finishing out req"]
      by (auto simp: sh io_bind_eq_Inr io_return_def)
  qed (use assms(1,2) in \<open>auto simp: sh io_bind_eq_Inr io_lift_def io_return_def\<close>)
qed

lemma page_task_answer:
  assumes "task_step env r t sh = (Inr (Inr resp), sh')" "page_task rec0 (fst sh) t"
  shows "fst sh' = fst sh \<and> (countable (fst sh) \<longrightarrow> page_answer rec0 resp)"
  using assms
  by (cases t; cases sh)
    (auto simp: io_bind_eq_Inr on_snd_eq_iff io_lift_def io_return_def apply_default_headers_fields page_answer_def)

lemma page_task_no_throw:
  assumes "router_ok r" "task_step env r t sh = (Inl f, sh')" "page_task rec0 (fst sh) t"
  shows "\<not> caught f"
proof -
  obtain rec w where sh: "sh = (rec, w)" by (cases sh)
  show ?thesis
  proof (cases t)
    case (Handling h req)
    then have "h = Status_handler" using assms(3) by (cases h) simp_all
    then show ?thesis using assms(2) by (auto simp: sh Handling handler_step_def io_bind_def caught_def split: if_splits)
  next
    case (Listed r1 r2 req)
    then show ?thesis using assms(2) by (auto simp: sh caught_def status_handle_request_def Let_def split: if_splits)
  next
    case (Finishing out req)
    obtain n where "get_route_handler r (longest_prefix_match r (get_uri req)) = Inr n"
      using get_route_handler_ok [OF assms(1)] by blast
    then show ?thesis using assms(2) by (simp add: Finishing)
  qed (use assms(2,3) in \<open>auto simp: sh io_bind_def\<close>)
qed

text \<open>Left alone, the thread comes to the page.\<close>

lemma page_finish:
  assumes "router_ok r" "page_answer rec0 out"
  shows "\<exists>resp. task_run env r (Finishing out req) sh (Inr resp) sh \<and> page_answer rec0 resp"
proof -
  obtain n where n: "get_route_handler r (longest_prefix_match r (get_uri req)) = Inr n"
    using get_route_handler_ok [OF assms(1)] by blast
  have "task_run env r (Finishing out req) sh (Inr (apply_default_headers r out)) sh"
    by (rule task_run.answered) (simp add: n)
  moreover have "page_answer rec0 (apply_default_headers r out)"
    using assms(2) by (simp add: page_answer_def apply_default_headers_fields)
  ultimately show ?thesis by blast
qed

lemma page_record:
  assumes "router_ok r" "page_answer rec0 out"
  shows "\<exists>resp sh'. task_run env r (Recording out req) sh (Inr resp) sh' \<and> page_answer rec0 resp"
proof -
  obtain rec w where sh: "sh = (rec, w)" by (cases sh)
  let ?sh = "(request_recorder (get_uri req) (get_status_code out) rec, w)"
  obtain resp where fin: "task_run env r (Finishing out req) ?sh (Inr resp) ?sh" "page_answer rec0 resp"
    using page_finish [OF assms, of env req ?sh] by blast
  have "task_step env r (Recording out req) sh = (Inr (Inl (Finishing out req)), ?sh)"
    by (simp add: sh io_bind_def io_return_def)
  from task_run.more [OF this fin(1)] fin(2) show ?thesis by blast
qed

lemma page_list:
  assumes "router_ok r" "grows rec0 r1" "grows r1 r2" "grows r2 (fst sh)" "countable (fst sh)"
  shows "\<exists>resp sh'. task_run env r (Listed r1 r2 req) sh (Inr resp) sh' \<and> page_answer rec0 resp"
proof -
  obtain rec w where sh: "sh = (rec, w)" by (cases sh)
  have r1: "countable r1" using assms(3-5) countable_grows by blast
  obtain out where out: "status_handle_request (r1, r2, rec) req = Inr out" "page_answer rec0 out"
    using status_page_complete [OF assms(3), of rec req] assms(4) r1 page_shows_grows [OF assms(2)]
    by (auto simp: sh countable_def page_answer_def)
  have "task_step env r (Listed r1 r2 req) sh = (Inr (Inl (Recording out req)), sh)"
    by (simp add: sh out(1) io_bind_def io_return_def)
  with page_record [OF assms(1) out(2), of env req sh] show ?thesis by (meson task_run.more)
qed

lemma page_task_run:
  assumes "router_ok r" "page_task rec0 (fst sh) t" "grows rec0 (fst sh)" "countable (fst sh)"
  shows "\<exists>resp sh'. task_run env r t sh (Inr resp) sh' \<and> page_answer rec0 resp"
proof -
  obtain rec w where sh: "sh = (rec, w)" by (cases sh)
  have self: "grows rec rec" by (simp add: grows_def)
  have count: "\<exists>resp sh'. task_run env r (Counted r1 req) sh (Inr resp) sh' \<and> page_answer rec0 resp"
    if r1: "grows rec0 r1" "grows r1 rec" for r1 req
  proof -
    have "task_step env r (Counted r1 req) sh = (Inr (Inl (Listed r1 rec req)), sh)" by (simp add: sh)
    moreover obtain resp sh' where "task_run env r (Listed r1 rec req) sh (Inr resp) sh'" "page_answer rec0 resp"
      using page_list [OF assms(1) r1, of sh env req] assms(4) self by (auto simp: sh)
    ultimately show ?thesis by (blast intro: task_run.more)
  qed
  show ?thesis
  proof (cases t)
    case (Handling h req)
    then have h: "h = Status_handler" using assms(2) by (cases h) simp_all
    have "\<not> get_url_response_list_size rec < 0" using assms(4) size_small [of rec] by (simp add: sh countable_def)
    then have "task_step env r t sh = (Inr (Inl (Counted rec req)), sh)"
      by (simp add: Handling h sh handler_step_def io_bind_def io_return_def)
    moreover obtain resp sh' where "task_run env r (Counted rec req) sh (Inr resp) sh'" "page_answer rec0 resp"
      using count [of rec req] assms(3) self by (auto simp: sh)
    ultimately show ?thesis by (blast intro: task_run.more)
  next
    case (Counted r1 req)
    then show ?thesis using count [of r1 req] assms(2) by (simp add: sh)
  next
    case (Listed r1 r2 req)
    then show ?thesis using page_list [OF assms(1), of rec0 r1 r2 sh] assms(2,4) by simp
  next
    case (Recording out req)
    then show ?thesis using page_record [OF assms(1), of rec0 out] assms(2,4) by simp
  next
    case (Finishing out req)
    with assms(2,4) have "page_answer rec0 out" by simp
    from page_finish [OF assms(1) this] show ?thesis unfolding Finishing by blast
  qed (use assms(2) in simp_all)
qed

text \<open>A thread that is not interrupted sends its answer.\<close>

lemma task_run_works:
  "task_run env r t (shared_of p) res sh' \<Longrightarrow> res = Inr resp \<Longrightarrow> k < length (workers p) \<Longrightarrow> workers p ! k = Some (i, t) \<Longrightarrow>
     i < length (sessions (server_of p)) \<Longrightarrow>
     \<exists>q. (work_step env r)\<^sup>*\<^sup>* p q \<and> sent (session_at q i) = sent (session_at p i) @ [snd (generate_response resp)]"
proof (induction t "shared_of p" res sh' arbitrary: p rule: task_run.induct)
  case (answered t resp' sh')
  note step = conc_step.answer [OF answered(3,4,1)]
  let ?q = "p\<lparr>server_of := put_session i (session_write (snd (generate_response resp'))
      ((session_at p i)\<lparr>holder := Some (fst (generate_response resp'))\<rparr>)) (server_of p),
    shared_of := sh', workers := (workers p)[k := None]\<rparr>"
  have "work_step env r p ?q" using step answered(3,4) by (auto simp: work_step_def)
  moreover have "sent (session_at ?q i) = sent (session_at p i) @ [snd (generate_response resp')]"
    using answered(5) by (simp add: put_session_def session_write_def)
  ultimately show ?case using answered(2) by blast
next
  case (threw t e sh')
  then show ?case by simp
next
  case (more t t' sh1 res sh')
  let ?p = "p\<lparr>shared_of := sh1, workers := (workers p)[k := Some (i, t')]\<rparr>"
  have "t' \<noteq> t" using task_step_rank [OF more(1)] by auto
  then have step: "work_step env r p ?p"
    using conc_step.act [OF more(5,6,1)] more(5,6) by (auto simp: work_step_def)
  obtain q where "(work_step env r)\<^sup>*\<^sup>* ?p q" "sent (session_at q i) = sent (session_at p i) @ [snd (generate_response resp)]"
    using more(3) [of ?p] more(4-7) by auto
  with step show ?case by (meson converse_rtranclp_into_rtranclp)
qed

subsection \<open>The session that asked for the page\<close>

text \<open>
  The session waits for the page, or the page was sent to it. \<open>rec0\<close> is the record when the handler started.
\<close>

definition page_due :: "server_status_recorder \<Rightarrow> nat \<Rightarrow> 'w running \<Rightarrow> bool" where
  "page_due rec0 i p \<longleftrightarrow> i < length (sessions (server_of p)) - 1 \<and> reads (session_at p i) = 0 \<and>
     grows rec0 (fst (shared_of p)) \<and> (\<forall>t. Some (i, t) \<in> set (workers p) \<longrightarrow> page_task rec0 (fst (shared_of p)) t) \<and>
     (sent (session_at p i) = [] \<and> 0 < busy i (workers p) \<or>
      (\<exists>resp. sent (session_at p i) = [snd (generate_response resp)] \<and>
       (countable (fst (shared_of p)) \<longrightarrow> page_answer rec0 resp)))"

text \<open>Nothing is lost of it when the record grows and the other sessions and threads go on.\<close>

lemma page_due_others:
  assumes "page_due rec0 i p" "grows (fst (shared_of p)) (fst (shared_of p'))"
    and "length (sessions (server_of p)) \<le> length (sessions (server_of p'))"
    and "reads (session_at p' i) = reads (session_at p i)" "sent (session_at p' i) = sent (session_at p i)"
    and "\<And>t. Some (i, t) \<in> set (workers p') \<Longrightarrow>
      Some (i, t) \<in> set (workers p) \<or> page_task rec0 (fst (shared_of p')) t"
    and "busy i (workers p') = busy i (workers p)"
  shows "page_due rec0 i p'"
  using assms page_task_grows [OF _ assms(2), of rec0] grows_trans [OF _ assms(2), of rec0] countable_grows [OF assms(2)]
  unfolding page_due_def by (auto 4 3)

lemma put_session_other: "j \<noteq> i \<Longrightarrow> sessions (put_session j s srv) ! i = sessions srv ! i"
  "length (sessions (put_session j s srv)) = length (sessions srv)"
  by (simp_all add: put_session_def)

lemma set_update_cases: "x \<in> set (ws[k := w]) \<Longrightarrow> x \<in> set ws \<or> x = w"
  using set_update_subset_insert [of ws k w] by blast

lemma page_due_step:
  "conc_step env r p p' \<Longrightarrow> router_ok r \<Longrightarrow> conc_ok (server_of p) (workers p) \<Longrightarrow> page_due rec0 i p \<Longrightarrow>
     page_due rec0 i p'"
proof (induction rule: conc_step.induct)
  case (thread_created p)
  then show ?case by (simp add: page_due_def)
next
  case (accepted p pre j post error remote mem)
  have "pre = []" "j = length (sessions (server_of p)) - 1" "srv_router (server_of p) \<noteq> None"
    using accepted(2,4) by (cases pre; auto simp: conc_ok_def)+
  moreover from this have "j \<noteq> i" "i < length (sessions (server_of p))" using accepted(5) by (auto simp: page_due_def)
  ultimately show ?case
    by (intro page_due_others [OF accepted(5)]) (auto simp: handle_accept_def start_accept_def nth_append)
next
  case (read_failed p j)
  then have "j \<noteq> i" by (auto simp: page_due_def)
  then show ?case by (intro page_due_others [OF read_failed(6)]) (simp_all add: put_session_other)
next
  case (read_invalid p j bytes beyond)
  then have "j \<noteq> i" by (auto simp: page_due_def)
  then show ?case by (intro page_due_others [OF read_invalid(8)]) (simp_all add: put_session_other)
next
  case (read_valid k p j bytes beyond)
  then have "j \<noteq> i" by (auto simp: page_due_def)
  then show ?case
    by (intro page_due_others [OF read_valid(11)]) (auto simp: put_session_other busy_eqs(1) [OF read_valid(1,2)] dest!: set_update_cases)
next
  case (act k p j t t' sh')
  note grows = task_step_grows [OF act(3)]
  have "page_task rec0 (fst sh') t'" if "j = i"
  proof (rule page_task_step [OF act(3)])
    show "page_task rec0 (fst (shared_of p)) t"
      using act(1,2,6) that nth_mem [OF act(1)] by (auto simp: page_due_def)
  qed (use act(6) in \<open>simp add: page_due_def\<close>)
  then show ?case
    by (intro page_due_others [OF act(6)]) (auto simp: grows busy_eqs(2) [OF act(1,2)] dest!: set_update_cases)
next
  case (answer k p j t resp sh')
  show ?case
  proof (cases "j = i")
    case False
    with task_step_answer [OF answer(3)] show ?thesis
      by (intro page_due_others [OF answer(6)])
        (auto simp: put_session_other busy_leave(2) [OF answer(1,2)] dest!: set_update_cases)
  next
    case True
    have "page_task rec0 (fst (shared_of p)) t"
      using answer(1,2,6) True nth_mem [OF answer(1)] by (auto simp: page_due_def)
    note page = page_task_answer [OF answer(3) this]
    have i: "i < length (sessions (server_of p))" using answer(6) unfolding page_due_def by linarith
    have "sent (session_at p i) = []"
      using conc_ok_active(4) [OF answer(5) i] busy_leave(1) [OF answer(1,2)] True by simp
    then show ?thesis using answer(6) page i True
      by (auto simp: page_due_def put_session_def session_simps dest!: set_update_cases)
  qed
next
  case (throw k p j t e sh')
  have "j \<noteq> i"
  proof
    assume "j = i"
    then have "page_task rec0 (fst (shared_of p)) t"
      using throw(1,2,6) nth_mem [OF throw(1)] by (auto simp: page_due_def)
    from page_task_no_throw [OF throw(4,3) this] show False by (simp add: caught_def)
  qed
  with task_step_throw [OF throw(4,3)] show ?case
    by (intro page_due_others [OF throw(6)])
      (auto simp: put_session_other busy_leave(2) [OF throw(1,2)] dest!: set_update_cases)
next
  case (write_done p j error shutdown_ok s')
  have "reads (sessions (put_session j s' (server_of p)) ! i) = reads (session_at p i)"
    "sent (sessions (put_session j s' (server_of p)) ! i) = sent (session_at p i)"
    using handle_write_cases [OF write_done(4)] write_done(2) by (cases "j = i"; simp add: put_session_other)+
  then show ?case by (intro page_due_others [OF write_done(7)]) (simp_all add: put_session_other)
qed

text \<open>The only thread of its session.\<close>

lemma busy_two: "k < length ws \<Longrightarrow> k' < length ws \<Longrightarrow> k \<noteq> k' \<Longrightarrow> ws ! k = Some (i, t) \<Longrightarrow> ws ! k' = Some (i, t') \<Longrightarrow>
    2 \<le> busy i ws"
  using busy_leave(1) [of k ws i t] busy_leave(1) [of k' "ws[k := None]" i t'] by simp

lemma only_worker:
  assumes "conc_ok srv ws" "k < length ws" "ws ! k = Some (i, t)" "Some (i, t') \<in> set ws"
  shows "t' = t"
proof (rule ccontr)
  assume "t' \<noteq> t"
  obtain k' where k': "k' < length ws" "ws ! k' = Some (i, t')" using assms(4) by (auto simp: in_set_conv_nth)
  with \<open>t' \<noteq> t\<close> assms(3) have "k \<noteq> k'" by auto
  with k' busy_two [of k ws k' i t t'] assms(2,3) have two: "2 \<le> busy i ws" by simp
  then have "i < length (sessions srv)" using conc_ok_busy [OF assms(1)] by simp
  from conc_ok_active(2) [OF assms(1) this] two show False by simp
qed

lemma page_due_start:
  assumes "conc_ok (server_of p) (workers p)" "k < length (workers p)" "workers p ! k = Some (i, Handling Status_handler req)"
  shows "page_due (fst (shared_of p)) i p"
proof -
  have busy: "0 < busy i (workers p)" using busy_leave(1) [OF assms(2,3)] by simp
  note a = conc_ok_active [OF assms(1) conc_ok_busy [OF assms(1) busy]]
  have "reads (session_at p i) = 0" "sent (session_at p i) = []" "i < length (sessions (server_of p)) - 1"
    using a busy by auto
  then show ?thesis using only_worker [OF assms] busy by (force simp: page_due_def grows_def)
qed

lemma page_due_run:
  "conc_run env r p p' \<Longrightarrow> router_ok r \<Longrightarrow> conc_ok (server_of p) (workers p) \<Longrightarrow> page_due rec0 i p \<Longrightarrow>
     page_due rec0 i p' \<and> conc_ok (server_of p') (workers p')"
  by (induction rule: rtranclp_induct) (auto intro: page_due_step conc_step_ok)

lemma busy_worker: "0 < busy i ws \<Longrightarrow> \<exists>k t. k < length ws \<and> ws ! k = Some (i, t)"
proof (induction ws)
  case (Cons w ws)
  show ?case
  proof (cases "work_of i w = 0")
    case True
    with Cons obtain k t where "k < length ws" "ws ! k = Some (i, t)" by (auto simp: busy_def)
    then show ?thesis by (intro exI [of _ "Suc k"]) auto
  next
    case False
    then obtain t where "w = Some (i, t)" by (auto simp: work_of_def split: option.splits if_splits)
    then show ?thesis by (intro exI [of _ 0]) auto
  qed
qed (simp add: busy_def)

lemma page_due_answers:
  assumes "page_due rec0 i p" "router_ok r" "countable (fst (shared_of p))" "sent (session_at p i) = []"
  shows "\<exists>q resp. (work_step env r)\<^sup>*\<^sup>* p q \<and> sent (session_at q i) = [snd (generate_response resp)] \<and> page_answer rec0 resp"
proof -
  have "0 < busy i (workers p)" using assms(1,4) by (auto simp: page_due_def)
  from busy_worker [OF this] obtain k t where k: "k < length (workers p)" "workers p ! k = Some (i, t)" by blast
  then have "page_task rec0 (fst (shared_of p)) t" using assms(1) nth_mem [OF k(1)] by (auto simp: page_due_def)
  moreover have "grows rec0 (fst (shared_of p))" "i < length (sessions (server_of p))"
    using assms(1) by (auto simp: page_due_def)
  ultimately obtain resp sh' where run: "task_run env r t (shared_of p) (Inr resp) sh'" "page_answer rec0 resp"
    using page_task_run [OF assms(2), of rec0 "shared_of p" t env] assms(3) by blast
  with task_run_works [OF run(1) refl k] \<open>i < length (sessions (server_of p))\<close> assms(4) show ?thesis by auto
qed

text \<open>
  C15: a client that asks the running server for its status page is answered with 200 and a page that has
  a row for every request and every route that was recorded when the handler started, whatever the other
  threads do and record meanwhile: wherever the server has come to since, that page is what was sent, and
  nothing else; or nothing was sent yet, and the steps of the server's threads alone lead to that page
  being sent. So the handler neither fails nor gets stuck. The bound is that of the count the page reads:
  fewer than \<open>2^31\<close> requests are recorded.
\<close>

theorem concurrent_status_page:
  assumes "router_ok r" "srv_router srv0 \<noteq> None" "sessions srv0 = []" "accepts srv0 = []"
    and "conc_run env r (run_server (snd (start_accept mem srv0)) sh0) p"
    and "k < length (workers p)" "workers p ! k = Some (i, Handling Status_handler req)"
    and "conc_run env r p p'" "length (url_response_list (fst (shared_of p'))) < 2 ^ 31"
  shows "\<exists>q resp. (q = p' \<or> sent (session_at p' i) = [] \<and> (work_step env r)\<^sup>*\<^sup>* p' q) \<and>
    sent (session_at q i) = [snd (generate_response resp)] \<and> get_status_code resp = 200 \<and>
    page_shows (fst (shared_of p)) (Response.get_body resp)"
proof -
  have ok: "conc_ok (server_of p) (workers p)" using conc_run_ok [OF assms(5) run_server_ok [OF assms(2-4)]] .
  have count: "countable (fst (shared_of p'))" using assms(9) by (simp add: countable_def)
  have due: "page_due (fst (shared_of p)) i p'"
    using page_due_run [OF assms(8,1) ok page_due_start [OF ok assms(6,7)]] by blast
  show ?thesis
  proof (cases "sent (session_at p' i) = []")
    case True
    obtain q resp where q: "(work_step env r)\<^sup>*\<^sup>* p' q" "sent (session_at q i) = [snd (generate_response resp)]"
      "page_answer (fst (shared_of p)) resp" using page_due_answers [OF due assms(1) count True] by blast
    with True show ?thesis unfolding page_answer_def by blast
  next
    case False
    with due count obtain resp where "sent (session_at p' i) = [snd (generate_response resp)]"
      "page_answer (fst (shared_of p)) resp" by (auto simp: page_due_def)
    then show ?thesis by (auto simp: page_answer_def)
  qed
qed

subsection \<open>A page that is served\<close>

definition status_config :: config where
  "status_config = [Statement [''handler'', ''status''] (Some [Statement [''location'', ''/status''] None])]"

definition status_router :: router where
  "status_router = (case register_routes_from_config (new_router status_config ''.'', new_recorder) of
     Inr (r, rec) \<Rightarrow> r | Inl e \<Rightarrow> new_router [] '''')"

definition status_bytes :: string where
  "status_bytes = status_line ''GET'' ''/status'' (CHR ''1'') (CHR ''1'') @ CRLF"

lemma status_router_ok: "router_ok status_router"
proof -
  have "list_all has_tokens status_config" by code_simp
  moreover have "map_sum id fst (register_routes_from_config (new_router status_config ''.'', new_recorder)) =
      Inr status_router" by code_simp
  then obtain rec where "register_routes_from_config (new_router status_config ''.'', new_recorder) = Inr (status_router, rec)"
    by (cases "register_routes_from_config (new_router status_config ''.'', new_recorder)") auto
  ultimately show ?thesis using register_config_router_ok by blast
qed

text \<open>The record of a server that has answered a request for \<open>/api\<close> already.\<close>

definition answered_recorder :: server_status_recorder where
  "answered_recorder = request_recorder ''/api'' 404 new_recorder"

theorem concurrent_status_page_witness:
  "\<exists>p q resp. (work_step sample_env status_router)\<^sup>*\<^sup>* p q \<and>
     workers p ! 0 = Some (0, Handling Status_handler (new_request status_bytes [])) \<and>
     sent (session_at q 0) = [snd (generate_response resp)] \<and> get_status_code resp = 200 \<and>
     sublist ''<tr><td>/api</td><td>404</td></tr>'' (Response.get_body resp)"
proof -
  let ?req = "new_request status_bytes []"
  let ?sh = "(answered_recorder, 0 :: nat)"
  let ?srv = "put_session 0 (receive status_bytes (session_start None (new_session []))) sample_accepted"
  let ?p = "taken 3 ?srv ?sh 0 (Handling Status_handler ?req)"
  have facts: "is_valid ?req" "\<not> freed_read ?req" "length status_bytes \<le> max_length"
    "select_handler sample_env status_router (get_uri ?req) (0 :: nat) = (Inr Status_handler, 0)"
    by code_simp+
  have take: "conc_step sample_env status_router (quiet 3 sample_accepted ?sh) (taken 3 ?srv ?sh 0 (Selecting ?req))"
    using quiet_take [of 0 sample_accepted status_bytes "[]" sample_env status_router 3] facts(1-3)
    by (simp add: sample_accepted_sessions session_simps)
  have select: "conc_step sample_env status_router (taken 3 ?srv ?sh 0 (Selecting ?req)) ?p"
    using facts(4) by (intro taken_act) (simp add: io_bind_def io_return_def)
  have run: "conc_run sample_env status_router (run_server (snd (start_accept [] sample_server)) ?sh) ?p"
    using sample_accept_step [of sample_env status_router ?sh] take select unfolding sample_pending_def
    by (meson r_into_rtranclp rtranclp_trans)
  have small: "length (url_response_list (fst (shared_of ?p))) < 2 ^ 31"
    by (simp add: taken_def answered_recorder_def request_recorder_def new_recorder_def)
  have at: "0 < length (workers ?p)" "workers ?p ! 0 = Some (0, Handling Status_handler ?req)"
    by (simp_all add: taken_def)
  have none: "sent (session_at ?p 0) = []"
    by (simp add: taken_def put_session_def sample_accepted_sessions session_simps receive_def)
  from concurrent_status_page [OF status_router_ok sample_server_facts run at rtranclp.rtrancl_refl small] none
  obtain q resp where q: "(work_step sample_env status_router)\<^sup>*\<^sup>* ?p q" "sent (session_at q 0) = [snd (generate_response resp)]"
    "get_status_code resp = 200" "page_shows answered_recorder (Response.get_body resp)" by (auto simp: taken_def)
  have "to_dec 404 = ''404''" by code_simp
  with q(4) have "sublist ''<tr><td>/api</td><td>404</td></tr>'' (Response.get_body resp)"
    by (simp add: page_shows_def answered_recorder_def request_recorder_def new_recorder_def)
  with q at(2) show ?thesis by blast
qed

end
