(* ===== verification/Spec2Isabelle.thy ===== *)
theory Spec2Isabelle
  imports Uri_Lib Config_Roundtrip Config_Statements Request_Props Response Status_Recorder Handlers
    Static_Files Router_Props Session_Props Server_Props Meme_Props Proxy_Props Meme_Map System_Props Thread_Pool
    Locks Concurrent_Server Concurrent_Faults Concurrent_Progress Concurrent_Status
begin

text \<open>
  A model of the C++ web server in \<open>src/src\<close> and \<open>src/include\<close>, and what
  makes it correct.

  \<^bold>\<open>The program.\<close> \<open>main\<close> reads a configuration file, creates a
  server with a router, and runs a pool of threads on one \<open>io_service\<close>. The server
  accepts connections and gives each to a session. A session reads once, parses the bytes as a
  request, lets the router choose a handler and produce a response, writes the response and deletes
  itself. The router and the status handler share one record of requests and routes.

  \<^bold>\<open>The theories\<close>, in the order of their dependence:
  \<^item> \<open>Prelude\<close>: faults and results, the C character classes, decimal printing, \<open>std::stoi\<close>.
  \<^item> \<open>Unordered_Map\<close>: \<open>std::unordered_map\<close> as a list of entries, with the locale \<open>dictionary\<close> of the
    laws its clients use and the facts that do not depend on the order of the entries.
  \<^item> \<open>Regex\<close>: the part of \<open>std::regex\<close> in use, as a backtracking matcher with the order of its matches,
    and its declarative meaning.
  \<^item> \<open>Uri_Lib\<close>: \<open>uri_lib.cc\<close>.
  \<^item> \<open>Config_Parser\<close>: the tokeniser, the parser and the printer of \<open>config_parser.cc\<close>; \<open>Config_Correct\<close>:
    its invariant; \<open>Config_Roundtrip\<close>: printing and parsing; \<open>Config_Statements\<close>: \<open>ParseStatements\<close>.
  \<^item> \<open>Request\<close>: \<open>request.cc\<close>; \<open>Request_Correct\<close>: which matches its expressions have; \<open>Request_Props\<close>: what
    is parsed from which bytes.
  \<^item> \<open>Response\<close>: \<open>response.cc\<close> and a reader of its output.
  \<^item> \<open>Status_Recorder\<close>: \<open>server_status_recorder.cc\<close> under interleaving.
  \<^item> \<open>Handlers\<close>: the interface \<open>route_handler.h\<close> as the locales \<open>route_handler\<close> and \<open>typed_handler\<close>, and
    the default, echo, health and status handlers; \<open>Static_Files\<close>: \<open>static_file_handler.cc\<close>.
  \<^item> \<open>Reverse_Proxy\<close> and \<open>Proxy_Props\<close>: \<open>reverse_proxy_handler.cc\<close> over the network as a parameter.
  \<^item> \<open>Sql_Lib\<close>: \<open>sql_lib.cc\<close> over SQLite as a parameter; \<open>Meme_Handler\<close> and \<open>Meme_Props\<close>:
    \<open>meme_handler.cc\<close>; \<open>Meme_Store\<close>: the contract of SQLite for the statements it makes; \<open>Meme_Map\<close>: the
    refinement of a map of documents.
  \<^item> \<open>Router\<close> and \<open>Router_Props\<close>: \<open>router.cc\<close>.
  \<^item> \<open>Session\<close> and \<open>Session_Props\<close>: \<open>session.cc\<close> as callbacks and as a step relation, with the locale
    \<open>request_service\<close> of what it needs from the router.
  \<^item> \<open>Server\<close> and \<open>Server_Props\<close>: \<open>server.cc\<close> and \<open>server_main.cc\<close>.
  \<^item> \<open>System_Props\<close>: the memes under the whole server; \<open>Thread_Pool\<close>: \<open>server::run\<close>, the threads that
    interleave the actions of requests; \<open>Concurrent_Server\<close>: the server with these threads and the
    callbacks of all sessions; \<open>Concurrent_Faults\<close>: how the running server can end;
    \<open>Concurrent_Progress\<close>: that it answers what it has read; \<open>Concurrent_Status\<close>: its status page.
  \<^item> \<open>Locks\<close>: the mutexes of \<open>router.cc\<close> and \<open>server_status_recorder.cc\<close> and what they protect, as the
    sequences in which each operation takes and frees them and reads and writes.

  \<^bold>\<open>How the code is read.\<close> Strings and buffers are lists of the 256 characters.
  A method of an object is a function on the record of its members, with their names (without the
  final underscore; a name that clashes with another class is qualified by its theory). Reading a
  vector out of range, following a null pointer and reading an unset member are
  \<open>Undefined\<close>; exceptions and exits are values, and a call that never returns is
  \<open>Blocked\<close>. Shared pointers are values, since no
  object is changed after it is shared, except the recorder, which is passed. What lies outside the
  process, the network and the database, is a state \<open>'w\<close> that the operations of type
  \<open>io\<close> of the prelude pass on, also when they throw: SQLite, the network and the
  generator of identifiers are functions on it, the fields of the record \<open>environment\<close>
  of \<open>Router\<close>. Locks are held for whole operations, so each is one step;
  \<open>Locks\<close> models the locks themselves. Loops are structural recursions; the parser's
  loop, the regular expression iterator and the reader of a reply's headers recurse on the text that
  is left, and terminate; no fuel is used.

  \<^bold>\<open>What the lemmas show.\<close> For \<open>uri_lib\<close>: decoding undoes encoding,
  the alphabet and the length of the encoded form, when decoding fails. For the configuration:
  parsing any text is defined and yields statements with tokens, printing a configuration and
  parsing it gives it back, and an accepted configuration is well formed; the port, the root and the
  thread count. For requests: the exact grammar of valid requests, which of them have their query
  read from freed memory, where the URI is cut, what the headers, the body and the query are, and
  round trips. For responses: what a client reads. For the recorder: no update is lost. For the
  handlers: what each answers, that static files stay in their directory, and what the rows of the
  status page are. For the memes: no value reaches the text of a statement, which identifiers and
  bodies are accepted, that the documents read back, when the table changes, and the order of the
  lists; and, when SQLite does what the statements say, that the handler refines a map from
  identifiers to documents, from the bytes of a POST on the socket to the response. For the proxy:
  which request is sent where, that what is read of a reply does not depend on how the network cuts
  it, what the client gets, and the replies, locations and configurations that make it fail. For the
  router: the longest prefix, the routes a configuration registers, that a handler can be selected
  for every URI that is not routed to a malformed proxy block, what a response is. For sessions: one
  response, one deletion, no callback after it, an end to its steps, and what is answered in each
  case. For the server: what holds of every server that starts, and that it answers with 404 or with
  the content of a file, from the bytes on the socket. For its threads: with the callbacks of all
  sessions interleaved, one accept is outstanding and no two threads work on one session, every
  answer is recorded once, the table of memes stays well formed, and the status page shows
  everything recorded before it was asked for, but two views of a meme can be counted as one. A
  request costs its thread at most six actions, and where no thread can go on, without any help from
  clients, every request that was read is answered, unless a thread is at one of the faults of
  \<open>crash_cause\<close>. The causes that can end a started server are listed; two of them are
  open to any client: going away before it has sent a request, and a query behind a path of more
  than 15 characters. Threads that route requests never deadlock, and registering routes beside them
  can; in no mixture of calls is there a data race.

  \<^bold>\<open>Parameters.\<close> The file system, the memory behind a buffer, what the sockets
  deliver and whether the port can be opened are inputs of the operations; SQLite, the network of
  the proxy and the random identifiers of memes are functions on the outside world. Nothing is
  assumed of them but where a property says so: \<open>meme_table\<close> is what SQLite documents
  of the seven statements when it executes them, not of a database that is locked or cannot be
  written; \<open>meme_environment\<close> adds that the network leaves the database file alone and
  that identifiers have their usual form.

  \<^bold>\<open>Not modelled.\<close> \<open>logger.cc\<close>, the set-up of a logging library,
  and every log line; the mutex of each handler object, which one thread uses; the lifetime of the
  buffer given to \<open>async_write\<close>, a parameter of \<open>session::write\<close> that is
  gone when the method returns; the missing return of \<open>session::close\<close>, whose result
  nothing uses; the memory that the proxy does not free; memory that cannot be allocated; the
  overflow of the count of open blocks of a configuration with \<open>2^31\<close> braces. The steps
  of a thread that routes a request are the actions of \<open>Thread_Pool\<close>: one for each time
  its handler locks the recorder and for each statement of a handler on the database, except that
  the constructor of the meme handler, which opens the database and creates its table, is one action
  with the selection of the handler.
\<close>

text \<open>
  C31: for a server that the main program has started, with a proxy or without, a valid request for a
  URI that no route covers, read whole by a session, is recorded once and answered with a response that
  a client reads as 404, plain text, naming the URI. The target has no query behind a path of more than
  15 characters.
\<close>

theorem served_unmatched:
  assumes "main_setup fs port_free mem argv = Inr (Running srv rec0)" "srv_router srv = Some r"
    and "status_line_ok m u d1 d2" "\<not> long_query u" and data: "data = status_line m u d1 d2 @ rest"
    and "\<forall>(p, h)\<in>set (route_map r). \<not> prefix p (fst (cut_query u))"
  shows "\<exists>s'. handle_read (route_request env r) beyond False (length data) (receive data s, (rec, w)) =
      (Inr (), (s', (request_recorder (fst (cut_query u)) 404 rec, w))) \<and>
    read_response (last (sent s')) = Some (''HTTP/1.1 404 Not Found'', [(''Content-Type'', ''text/plain'')],
      ''The requested resource at '' @ fst (cut_query u) @ '' could not be found!'')"
proof -
  let ?req = "new_request data beyond"
  have uri: "get_uri ?req = fst (cut_query u)" by (simp add: new_request_ok [OF assms(3) data] request_getters)
  have r: "router_ok r" "headers r = um_empty" using running_router [OF assms(1,2)] by simp_all
  have "um_find (route_map r) '''' = None" using assms(6) by (auto simp: um_find_None_iff)
  then have "'''' \<notin> fst ` set (config_routes (config_of r))"
    using running_routes [OF assms(1,2), of "''''"] by (simp add: map_of_eq_None_iff)
  with unmatched_selects [OF r(1) assms(6)]
  have sel: "select_handler env r (fst (cut_query u)) w = (Inr Default_handler, w)" by simp
  from served_by [OF assms(3) data assms(4) r(2) sel, of rec beyond "default_handle_request ?req" w s]
  show ?thesis by (auto simp: default_handle_request_def generate_404_response_def read_plain status_texts handler_simps uri)
qed

definition proxy_main_text :: string where
  "proxy_main_text = ''port 80; router { handler proxy { location /ucla; root www.ucla.edu; port 80; } }'' @ [LF]"

theorem served_unmatched_witness:
  "\<exists>r s'. handle_read (route_request sample_env r) [] False (length (status_line ''GET'' ''/x'' (CHR ''1'') (CHR ''1'') @ CRLF))
      (receive (status_line ''GET'' ''/x'' (CHR ''1'') (CHR ''1'') @ CRLF) sample_start, (new_recorder, 0)) =
    (Inr (), (s', (request_recorder ''/x'' 404 new_recorder, 0))) \<and> route_map r = [(''/ucla'', ''proxy'')]"
proof -
  let ?res = "main_setup (\<lambda>p. if p = ''conf'' then Some proxy_main_text else None) True [] [''prog'', ''conf'']"
  have "map_option (\<lambda>srv. map_option route_map (srv_router srv)) (outcome_server ?res) =
      Some (Some [(''/ucla'', ''proxy'')])" by code_simp
  then obtain srv r where srv: "outcome_server ?res = Some srv" "srv_router srv = Some r"
    and r: "route_map r = [(''/ucla'', ''proxy'')]" by auto
  obtain rec where run: "?res = Inr (Running srv rec)" using outcome_server_Some [OF srv(1)] by blast
  have ok: "status_line_ok ''GET'' ''/x'' (CHR ''1'') (CHR ''1'')" "\<not> long_query ''/x''" by code_simp+
  have "fst (cut_query ''/x'') = ''/x''" by code_simp
  with served_unmatched [OF run srv(2) ok refl, of sample_env "[]" CRLF sample_start new_recorder 0] r
  show ?thesis by auto
qed

text \<open>
  C18: a started server serves its files. A valid GET whose URI is routed to one of the file handlers
  and ends in a file name is answered with the content of that file in the directory of the
  handler's block, byte for byte, under the content type of its extension, and with 404 when there is
  no such file; the answer is recorded once with its status. The target has no query behind a path of more
  than 15 characters.
\<close>

theorem served_static:
  assumes "main_setup fs port_free mem argv = Inr (Running srv rec0)" "srv_router srv = Some r"
    and "n \<in> {''static1'', ''static2'', ''webMeme'', ''imageMeme''}"
    and "um_find (route_map r) (longest_prefix_match r (fst (cut_query u))) = Some n"
    and "status_line_ok ''GET'' u d1 d2" "\<not> long_query u" and data: "data = status_line ''GET'' u d1 d2 @ rest"
    and "file_uri (fst (cut_query u)) name ext"
  shows "\<exists>b path s'. map_of (rev (handler_blocks (config_of r))) n = Some b \<and>
    new_static_file_handler (Some b) (server_root r) = Inr path \<and>
    (case files env (path @ ''/'' @ name @ ext) of
      None \<Rightarrow> handle_read (route_request env r) beyond False (length data) (receive data s, (rec, w)) =
          (Inr (), (s', (request_recorder (fst (cut_query u)) 404 rec, w))) \<and>
        read_response (last (sent s')) = Some (''HTTP/1.1 404 Not Found'', [(''Content-Type'', ''text/plain'')],
          ''The requested file could not be found!'' @ [LF])
    | Some f \<Rightarrow> handle_read (route_request env r) beyond False (length data) (receive data s, (rec, w)) =
          (Inr (), (s', (request_recorder (fst (cut_query u)) 200 rec, w))) \<and>
        read_response (last (sent s')) =
          Some (''HTTP/1.1 200 OK'', [(''Content-Type'', get_mime_type ext)], f))"
proof -
  let ?req = "new_request data beyond"
  have req: "get_uri ?req = fst (cut_query u)" "get_method ?req = ''GET''"
    by (simp_all add: new_request_ok [OF assms(5) data] request_getters)
  have r: "router_ok r" "headers r = um_empty" using running_router [OF assms(1,2)] by simp_all
  obtain b path where b: "map_of (rev (handler_blocks (config_of r))) n = Some b"
    "new_static_file_handler (Some b) (server_root r) = Inr path"
    and sel: "select_handler env r (fst (cut_query u)) w = (Inr (Static_file_handler path), w)"
    using select_static [OF r(1) assms(3,4), of env w] by blast
  have info: "parse_file_info (fst (cut_query u)) = [name, ext]" using assms(8) file_info_iff by blast
  have out: "static_handle_request (files env) path ?req = (case files env (path @ ''/'' @ name @ ext) of
      None \<Rightarrow> file_not_found
    | Some f \<Rightarrow> set_header ''Content-Type'' (get_mime_type ext) (new_response 200 f))"
    by (simp add: static_handle_request_def serve_file_def req info split: option.split)
  have typed: "read_response (snd (generate_response (set_header ''Content-Type'' (get_mime_type ext) (new_response 200 f)))) =
      Some (''HTTP/1.1 200 OK'', [(''Content-Type'', get_mime_type ext)], f)" for f
    using get_mime_type_clean [of ext] by (simp add: read_generate_response response_simps um_defs status_texts)
  obtain s' where "handle_read (route_request env r) beyond False (length data) (receive data s, (rec, w)) =
      (Inr (), (s', (request_recorder (fst (cut_query u))
        (get_status_code (static_handle_request (files env) path ?req)) rec, w)))"
    "last (sent s') = snd (generate_response (static_handle_request (files env) path ?req))"
    using served_by [OF assms(5) data assms(6) r(2) sel, of rec beyond "static_handle_request (files env) path ?req" w s] by auto
  with b show ?thesis
    by (intro exI [of _ b] exI [of _ path] exI [of _ s'])
      (simp add: out typed file_not_found_def read_plain status_texts handler_simps split: option.split)
qed

definition static_main_text :: string where
  "static_main_text = ''port 80; router { handler static1 { location /s; root static; } }'' @ [LF]"

theorem served_static_witness:
  "\<exists>r s'. handle_read (route_request sample_env r) [] False (length (status_line ''GET'' ''/s/a.html'' (CHR ''1'') (CHR ''1'')))
      (receive (status_line ''GET'' ''/s/a.html'' (CHR ''1'') (CHR ''1'')) sample_start, (new_recorder, 0)) =
      (Inr (), (s', (request_recorder ''/s/a.html'' 200 new_recorder, 0))) \<and>
    read_response (last (sent s')) = Some (''HTTP/1.1 200 OK'', [(''Content-Type'', ''text/html'')], ''<p>'')"
proof -
  let ?res = "main_setup (\<lambda>p. if p = ''conf'' then Some static_main_text else None) True [] [''prog'', ''conf'']"
  let ?blocks = "[(''static1'', [Statement [''location'', ''/s''] None, Statement [''root'', ''static''] None])]"
  have "map_option (\<lambda>srv. map_option (\<lambda>r. (route_map r, handler_blocks (config_of r), server_root r)) (srv_router srv))
      (outcome_server ?res) = Some (Some ([(''/s'', ''static1'')], ?blocks, ''''))" by code_simp
  then obtain srv r where srv: "outcome_server ?res = Some srv" "srv_router srv = Some r"
    and r: "route_map r = [(''/s'', ''static1'')]" "handler_blocks (config_of r) = ?blocks" "server_root r = ''''" by auto
  obtain rec where run: "?res = Inr (Running srv rec)" using outcome_server_Some [OF srv(1)] by blast
  have ok: "status_line_ok ''GET'' ''/s/a.html'' (CHR ''1'') (CHR ''1'')" "\<not> long_query ''/s/a.html''" by code_simp+
  have u: "fst (cut_query ''/s/a.html'') = ''/s/a.html''" by code_simp
  have "longest_prefix_match r ''/s/a.html'' = ''/s''"
    by (simp add: longest_prefix_match_def lpm_step_eq r(1))
  then have m: "um_find (route_map r) (longest_prefix_match r (fst (cut_query ''/s/a.html''))) = Some ''static1''"
    by (simp add: u r(1) um_find_def)
  have f: "file_uri (fst (cut_query ''/s/a.html'')) ''a'' ''.html''"
    by (simp add: u file_uri_def char_class_simps suffix_def)
  have "get_mime_type ''.html'' = ''text/html''" by code_simp
  moreover have "new_static_file_handler (Some [Statement [''location'', ''/s''] None, Statement [''root'', ''static''] None]) '''' =
      Inr ''static''" by code_simp
  ultimately show ?thesis
    using served_static [OF run srv(2) _ m ok append_Nil2 [symmetric] f, of sample_env "[]" sample_start new_recorder 0]
    by (auto simp: u r(2,3) sample_env_def sample_files_def)
qed

end
